theory Spec2Isabelle
  imports Complex_Main "HOL-Library.Word" "HOL-Library.Multiset"
begin

unbundle bit_operations_syntax

section \<open>JavaScript numbers\<close>

text \<open>
  A JavaScript number is modelled as an exact real, or one of the three special values.
  Rounding and overflow of finite values are not modelled, and the two zeros are one
  value \<open>Fin 0\<close>. The special values follow IEEE 754 as JavaScript exposes it.
\<close>

datatype jsnum = Fin real | PInf | NInf | NaN

datatype error = Error string | RangeError string

fun is_fin :: "jsnum \<Rightarrow> bool" where
  "is_fin (Fin a) = True"
| "is_fin x = False"

fun the_fin :: "jsnum \<Rightarrow> real" where
  "the_fin (Fin a) = a"
| "the_fin x = 0"

fun js_neg :: "jsnum \<Rightarrow> jsnum" where
  "js_neg (Fin a) = Fin (- a)"
| "js_neg PInf = NInf"
| "js_neg NInf = PInf"
| "js_neg NaN = NaN"

fun js_add :: "jsnum \<Rightarrow> jsnum \<Rightarrow> jsnum" where
  "js_add (Fin a) (Fin b) = Fin (a + b)"
| "js_add NaN y = NaN"
| "js_add x NaN = NaN"
| "js_add PInf NInf = NaN"
| "js_add NInf PInf = NaN"
| "js_add PInf y = PInf"
| "js_add x PInf = PInf"
| "js_add NInf y = NInf"
| "js_add x NInf = NInf"

definition js_sub :: "jsnum \<Rightarrow> jsnum \<Rightarrow> jsnum" where
  "js_sub x y = js_add x (js_neg y)"

text \<open>\<open>x > 0\<close> and \<open>x < 0\<close> as JavaScript evaluates them (both false on NaN).\<close>

fun js_pos :: "jsnum \<Rightarrow> bool" where
  "js_pos (Fin a) = (0 < a)"
| "js_pos PInf = True"
| "js_pos x = False"

fun js_negative :: "jsnum \<Rightarrow> bool" where
  "js_negative (Fin a) = (a < 0)"
| "js_negative NInf = True"
| "js_negative x = False"

fun js_mul :: "jsnum \<Rightarrow> jsnum \<Rightarrow> jsnum" where
  "js_mul (Fin a) (Fin b) = Fin (a * b)"
| "js_mul NaN y = NaN"
| "js_mul x NaN = NaN"
| "js_mul x y =
     (if x = Fin 0 \<or> y = Fin 0 then NaN
      else if js_pos x = js_pos y then PInf else NInf)"

text \<open>
  Division. A zero divisor is taken to be \<open>+0\<close>: the only zero divisors this program
  can produce are non-negative integer counts.
\<close>

fun js_div :: "jsnum \<Rightarrow> jsnum \<Rightarrow> jsnum" where
  "js_div (Fin a) (Fin b) =
     (if b \<noteq> 0 then Fin (a / b)
      else if 0 < a then PInf else if a < 0 then NInf else NaN)"
| "js_div NaN y = NaN"
| "js_div x NaN = NaN"
| "js_div (Fin a) y = Fin 0"
| "js_div x (Fin b) = (if js_pos x = (0 \<le> b) then PInf else NInf)"
| "js_div x y = NaN"

fun js_abs :: "jsnum \<Rightarrow> jsnum" where
  "js_abs (Fin a) = Fin \<bar>a\<bar>"
| "js_abs PInf = PInf"
| "js_abs NInf = PInf"
| "js_abs NaN = NaN"

text \<open>\<open>Math.sign\<close>, \<open>Math.max\<close> of two arguments, \<open>Math.sqrt\<close>.\<close>

fun js_sign :: "jsnum \<Rightarrow> jsnum" where
  "js_sign (Fin a) = Fin (sgn a)"
| "js_sign PInf = Fin 1"
| "js_sign NInf = Fin (- 1)"
| "js_sign NaN = NaN"

fun js_max :: "jsnum \<Rightarrow> jsnum \<Rightarrow> jsnum" where
  "js_max (Fin a) (Fin b) = Fin (max a b)"
| "js_max NaN y = NaN"
| "js_max x NaN = NaN"
| "js_max PInf y = PInf"
| "js_max x PInf = PInf"
| "js_max NInf y = y"
| "js_max x NInf = x"

fun js_sqrt :: "jsnum \<Rightarrow> jsnum" where
  "js_sqrt (Fin a) = (if a < 0 then NaN else Fin (sqrt a))"
| "js_sqrt PInf = PInf"
| "js_sqrt x = NaN"

text \<open>The comparisons \<open>x < y\<close>, \<open>x > y\<close> and \<open>x === y\<close>; all are false when a side is NaN.\<close>

fun js_lt :: "jsnum \<Rightarrow> jsnum \<Rightarrow> bool" where
  "js_lt (Fin a) (Fin b) = (a < b)"
| "js_lt NaN y = False"
| "js_lt x NaN = False"
| "js_lt x NInf = False"
| "js_lt PInf y = False"
| "js_lt x y = True"

definition js_gt :: "jsnum \<Rightarrow> jsnum \<Rightarrow> bool" where
  "js_gt x y = js_lt y x"

definition js_eq :: "jsnum \<Rightarrow> jsnum \<Rightarrow> bool" where
  "js_eq x y = (x \<noteq> NaN \<and> x = y)"

text \<open>
  Reading an array at an index: out of range JavaScript yields \<open>undefined\<close>, which every
  arithmetic use in this program coerces to NaN.
\<close>

definition nth_num :: "jsnum list \<Rightarrow> int \<Rightarrow> jsnum" where
  "nth_num xs i = (if 0 \<le> i \<and> i < int (length xs) then xs ! nat i else NaN)"

subsection \<open>Sorting with a comparator\<close>

text \<open>
  \<open>xs.sort(cmp)\<close>: ECMAScript sorts stably, places \<open>a\<close> after \<open>b\<close> when \<open>cmp(a, b) > 0\<close>,
  and reads a NaN result as \<open>+0\<close>. For a comparator that is a consistent order every
  conforming engine returns the list computed here; when NaN makes the comparator
  inconsistent the standard leaves the order to the engine, and this insertion sort is
  one permitted outcome.
\<close>

fun insort_cmp :: "('a \<Rightarrow> 'a \<Rightarrow> jsnum) \<Rightarrow> 'a \<Rightarrow> 'a list \<Rightarrow> 'a list" where
  "insort_cmp cmp x [] = [x]"
| "insort_cmp cmp x (y # ys) =
     (if js_gt (cmp x y) (Fin 0) then y # insort_cmp cmp x ys else x # y # ys)"

definition sort_cmp :: "('a \<Rightarrow> 'a \<Rightarrow> jsnum) \<Rightarrow> 'a list \<Rightarrow> 'a list" where
  "sort_cmp cmp xs = foldr (insort_cmp cmp) xs []"

section \<open>usad.js: keyed BLAKE2b hashing\<close>

text \<open>
  The hash state is held in BigInt values that the source masks to 64 bits after every
  addition and rotation; they are modelled as \<open>int\<close> with the same masks. Bytes of a
  \<open>Uint8Array\<close> are 8-bit words.
\<close>

type_synonym byte = "8 word"

definition MASK64 :: int where
  "MASK64 = 0xffffffffffffffff"

definition IV :: "int list" where
  "IV = [0x6a09e667f3bcc908, 0xbb67ae8584caa73b, 0x3c6ef372fe94f82b, 0xa54ff53a5f1d36f1,
         0x510e527fade682d1, 0x9b05688c2b3e6c1f, 0x1f83d9abfb41bd6b, 0x5be0cd19137e2179]"

definition SIGMA_tbl :: "nat list list" where
  "SIGMA_tbl =
    [[0,1,2,3,4,5,6,7,8,9,10,11,12,13,14,15],
     [14,10,4,8,9,15,13,6,1,12,0,2,11,7,5,3],
     [11,8,12,0,5,2,15,13,10,14,3,6,7,1,9,4],
     [7,9,3,1,13,12,11,14,2,6,5,10,4,0,15,8],
     [9,0,5,7,2,4,10,15,14,1,11,12,6,8,3,13],
     [2,12,6,10,4,7,15,14,1,11,9,5,3,13,8,0],
     [12,5,1,15,14,13,4,10,0,7,6,3,9,2,8,11],
     [13,11,7,14,12,1,3,9,5,0,15,4,8,6,2,10],
     [6,15,14,9,11,3,0,8,12,2,13,7,1,4,10,5],
     [10,2,8,4,7,6,1,5,15,11,9,14,3,12,13,0],
     [0,1,2,3,4,5,6,7,8,9,10,11,12,13,14,15],
     [14,10,4,8,9,15,13,6,1,12,0,2,11,7,5,3]]"

definition rotr :: "int \<Rightarrow> nat \<Rightarrow> int" where
  "rotr x n = (drop_bit n x OR push_bit (64 - n) x) AND MASK64"

text \<open>
  \<open>G\<close> is eight assignments to the work vector, alternating an addition of two
  entries (and a message word) with a rotation of the exclusive or of two entries.
\<close>

definition mix_add :: "int list \<Rightarrow> nat \<Rightarrow> nat \<Rightarrow> int \<Rightarrow> int list" where
  "mix_add v a b x = v[a := (v ! a + v ! b + x) AND MASK64]"

definition mix_rot :: "int list \<Rightarrow> nat \<Rightarrow> nat \<Rightarrow> nat \<Rightarrow> int list" where
  "mix_rot v d a n = v[d := rotr (v ! d XOR v ! a) n]"

definition G :: "int list \<Rightarrow> nat \<Rightarrow> nat \<Rightarrow> nat \<Rightarrow> nat \<Rightarrow> int \<Rightarrow> int \<Rightarrow> int list" where
  "G v0 a b c d x y =
     (let v1 = mix_add v0 a b x;
          v2 = mix_rot v1 d a 32;
          v3 = mix_add v2 c d 0;
          v4 = mix_rot v3 b c 24;
          v5 = mix_add v4 a b y;
          v6 = mix_rot v5 d a 16;
          v7 = mix_add v6 c d 0
      in mix_rot v7 b c 63)"

text \<open>Little-endian 32-bit reads and writes of a \<open>DataView\<close>; every read is in range.\<close>

definition getUint32_le :: "byte list \<Rightarrow> nat \<Rightarrow> int" where
  "getUint32_le b ofs =
     uint (b ! ofs) + 256 * uint (b ! (ofs + 1)) + 65536 * uint (b ! (ofs + 2))
       + 16777216 * uint (b ! (ofs + 3))"

definition setUint32_le :: "int \<Rightarrow> byte list" where
  "setUint32_le x =
     [word_of_int x, word_of_int (drop_bit 8 x), word_of_int (drop_bit 16 x),
      word_of_int (drop_bit 24 x)]"

fun partial_word :: "byte list \<Rightarrow> int" where
  "partial_word [] = 0"
| "partial_word (x # xs) = uint x OR push_bit 8 (partial_word xs)"

definition blockToWords :: "byte list \<Rightarrow> int list" where
  "blockToWords b =
     map (\<lambda>i. if i * 8 + 8 \<le> length b
               then push_bit 32 (getUint32_le b (i * 8 + 4)) OR getUint32_le b (i * 8)
               else if i * 8 < length b then partial_word (take 8 (drop (i * 8) b))
               else 0) [0..<16]"

definition mix_round :: "int list \<Rightarrow> int list \<Rightarrow> nat \<Rightarrow> int list" where
  "mix_round m v0 r =
     (let s = SIGMA_tbl ! r;
          v1 = G v0 0 4 8 12 (m ! (s ! 0)) (m ! (s ! 1));
          v2 = G v1 1 5 9 13 (m ! (s ! 2)) (m ! (s ! 3));
          v3 = G v2 2 6 10 14 (m ! (s ! 4)) (m ! (s ! 5));
          v4 = G v3 3 7 11 15 (m ! (s ! 6)) (m ! (s ! 7));
          v5 = G v4 0 5 10 15 (m ! (s ! 8)) (m ! (s ! 9));
          v6 = G v5 1 6 11 12 (m ! (s ! 10)) (m ! (s ! 11));
          v7 = G v6 2 7 8 13 (m ! (s ! 12)) (m ! (s ! 13))
      in G v7 3 4 9 14 (m ! (s ! 14)) (m ! (s ! 15)))"

text \<open>One iteration of the block loop: the new chaining value for a block and its counters.\<close>

definition init_work :: "int list \<Rightarrow> int \<Rightarrow> int \<Rightarrow> bool \<Rightarrow> int list" where
  "init_work h t0 t1 isLast =
     (let v = h @ IV;
          v = v[12 := (v ! 12 XOR t0) AND MASK64];
          v = v[13 := (v ! 13 XOR t1) AND MASK64]
      in if isLast then v[14 := (v ! 14 XOR MASK64) AND MASK64] else v)"

definition compress :: "int list \<Rightarrow> int \<Rightarrow> int \<Rightarrow> bool \<Rightarrow> byte list \<Rightarrow> int list" where
  "compress h t0 t1 isLast blk =
     (let block = blk @ replicate (128 - length blk) 0;
          m = blockToWords block;
          v = foldl (mix_round m) (init_work h t0 t1 isLast) [0..<12]
      in map (\<lambda>i. (h ! i XOR v ! i XOR v ! (i + 8)) AND MASK64) [0..<8])"

fun process_blocks :: "int list \<Rightarrow> int \<Rightarrow> int \<Rightarrow> byte list list \<Rightarrow> int list" where
  "process_blocks h t0 t1 [] = h"
| "process_blocks h t0 t1 (blk # rest) =
     process_blocks
       (compress h ((t0 + int (length blk)) AND MASK64)
          (if (t0 + int (length blk)) AND MASK64 < int (length blk) then (t1 + 1) AND MASK64 else t1)
          (rest = []) blk)
       ((t0 + int (length blk)) AND MASK64)
       (if (t0 + int (length blk)) AND MASK64 < int (length blk) then (t1 + 1) AND MASK64 else t1)
       rest"

fun split_blocks :: "nat \<Rightarrow> byte list \<Rightarrow> byte list list" where
  "split_blocks fuel [] = []"
| "split_blocks 0 (x # xs) = []"
| "split_blocks (Suc fuel) (x # xs) = take 128 (x # xs) # split_blocks fuel (drop 128 (x # xs))"

text \<open>
  \<open>blake2b(input, outlen, key)\<close>. An absent key is the empty list. Copying a key longer
  than one block into the key block raises a \<open>RangeError\<close>. The input is cut into
  128-byte pieces; its length bounds the number of pieces.
\<close>

definition blake2b :: "byte list \<Rightarrow> int \<Rightarrow> byte list \<Rightarrow> error + byte list" where
  "blake2b input outlen key =
     (if outlen \<le> 0 \<or> outlen > 64 then Inl (Error ''blake2b outlen'')
      else if length key > 128 then Inl (RangeError ''offset is out of bounds'')
      else
        let keylen = length key;
            param = uint ((0x01010000 OR push_bit 8 (word_of_nat keylen) OR word_of_int outlen) :: 32 word);
            h = IV[0 := IV ! 0 XOR param];
            blocks = (if keylen \<noteq> 0 then [key @ replicate (128 - keylen) 0] else [])
                       @ split_blocks (length input) input;
            hf = process_blocks h 0 0 blocks
        in Inr (take (nat outlen)
                 (concat (map (\<lambda>w. setUint32_le (w AND 0xffffffff)
                                     @ setUint32_le (drop_bit 32 w AND 0xffffffff)) hf))))"

definition u64leFromDigest16 :: "byte list \<Rightarrow> int" where
  "u64leFromDigest16 d = push_bit 32 (getUint32_le d 4) OR getUint32_le d 0"

definition DEFAULT_SALT1 :: "byte list" where
  "DEFAULT_SALT1 = map (\<lambda>c. of_nat (of_char c)) ''USAD_salt_1''"

definition DEFAULT_SALT2 :: "byte list" where
  "DEFAULT_SALT2 = map (\<lambda>c. of_nat (of_char c)) ''USAD_salt_2''"

definition to8LE :: "int \<Rightarrow> byte list" where
  "to8LE i = setUint32_le (i AND 0xffffffff) @ setUint32_le (drop_bit 32 i AND 0xffffffff)"

text \<open>
  \<open>blake2bIndex(i, dim, key)\<close>: the digest's first eight bytes, little-endian, modulo
  the dimension. The BigInt remainder takes the sign of the (non-negative) dividend and raises
  on a zero divisor.
\<close>

definition blake2bIndex :: "int \<Rightarrow> int \<Rightarrow> byte list \<Rightarrow> error + int" where
  "blake2bIndex i D key =
     (case blake2b (to8LE i) 16 key of
        Inl e \<Rightarrow> Inl e
      | Inr digest \<Rightarrow>
          if D = 0 then Inl (RangeError ''Division by zero'')
          else Inr (u64leFromDigest16 digest mod \<bar>D\<bar>))"

section \<open>usad.js: robust statistics and the sparse encoder\<close>

definition median :: "jsnum list \<Rightarrow> jsnum" where
  "median arr =
     (let a = sort_cmp js_sub arr; n = int (length a)
      in if odd n then nth_num a ((n - 1) div 2)
         else js_mul (Fin (1 / 2)) (js_add (nth_num a (n div 2)) (nth_num a (n div 2 - 1))))"

definition robustZ :: "jsnum list \<Rightarrow> jsnum \<Rightarrow> jsnum list" where
  "robustZ x eps =
     (let med = median x;
          dev = map (\<lambda>xi. js_abs (js_sub xi med)) x;
          mad = median dev;
          scale = js_mul (Fin (14826 / 10000)) (js_add mad eps)
      in map (\<lambda>xi. js_div (js_sub xi med) scale) x)"

definition EPS :: jsnum where
  "EPS = Fin (1 / 10 ^ 12)"

record SparseSignature =
  sig_idx :: "int list"
  sig_val :: "jsnum list"
  sig_norm :: jsnum

record HashingParams =
  h_dim :: int
  h_salt1 :: "byte list option"
  h_salt2 :: "byte list option"
  h_useDoubleHash :: "bool option"

record EncodeParams =
  p_k :: int
  p_hashing :: "HashingParams option"
  p_clipQuantile :: jsnum

text \<open>The values the source substitutes for omitted parameters.\<close>

definition default_hashing :: "int \<Rightarrow> HashingParams" where
  "default_hashing D =
     \<lparr>h_dim = D, h_salt1 = Some DEFAULT_SALT1, h_salt2 = Some DEFAULT_SALT2,
      h_useDoubleHash = Some True\<rparr>"

definition default_params :: EncodeParams where
  "default_params =
     \<lparr>p_k = 16, p_hashing = Some (default_hashing 4096), p_clipQuantile = Fin (95 / 100)\<rparr>"

text \<open>Elevation damping: subtract the \<open>clipQuantile\<close> quantile of \<open>|z|\<close>, keeping the sign.\<close>

definition damped_elevations :: "jsnum list \<Rightarrow> jsnum \<Rightarrow> jsnum list" where
  "damped_elevations z clip =
     (if js_gt clip (Fin 0) \<and> js_lt clip (Fin 1) then
        let sorted = sort_cmp js_sub (map js_abs z);
            len = int (length sorted);
            qpos = max 0 (min (len - 1) (\<lceil>real_of_int len * the_fin clip\<rceil> - 1));
            q = nth_num sorted qpos
        in map (\<lambda>zi. js_mul (js_sign zi) (js_max (js_sub (js_abs zi) q) (Fin 0))) z
      else z)"

text \<open>Feature indices by descending \<open>|elev|\<close>, cut to the first \<open>k\<close> when \<open>k < n\<close>.\<close>

definition top_indices :: "jsnum list \<Rightarrow> int \<Rightarrow> nat list" where
  "top_indices elev k =
     (let n = length elev;
          idxs = sort_cmp (\<lambda>i j. js_sub (js_abs (elev ! j)) (js_abs (elev ! i))) [0..<n]
      in if k < int n then take (nat k) idxs else idxs)"

text \<open>
  The state of the placement loop: the arrays \<open>pos\<close> and \<open>val\<close> and the map \<open>taken\<close> from
  a position to its index in them.
\<close>

type_synonym enc_state = "int list \<times> jsnum list \<times> (int \<rightharpoonup> nat)"

text \<open>
  Collision resolution for one feature of value \<open>v\<close>: the position it is to be stored at,
  or \<open>None\<close> when the loop continues without storing it.
\<close>

definition choose_slot ::
  "int \<Rightarrow> byte list \<Rightarrow> byte list \<Rightarrow> bool \<Rightarrow> enc_state \<Rightarrow> nat \<Rightarrow> jsnum \<Rightarrow> error + int option" where
  "choose_slot D salt1 salt2 useDouble st orig v =
     (case st of (pos, val, taken) \<Rightarrow>
        case blake2bIndex (int orig) D salt1 of
          Inl e \<Rightarrow> Inl e
        | Inr p1 \<Rightarrow>
            (case taken p1 of
               None \<Rightarrow> Inr (Some p1)
             | Some ie \<Rightarrow>
                 if useDouble then
                   (case blake2bIndex (int orig) D salt2 of
                      Inl e \<Rightarrow> Inl e
                    | Inr p2 \<Rightarrow>
                        if taken p2 = None then Inr (Some p2)
                        else if js_gt (js_abs v) (js_abs (val ! ie)) then Inr (Some p1)
                        else Inr None)
                 else if js_gt (js_abs v) (js_abs (val ! ie)) then Inr (Some p1)
                 else Inr None))"

definition store :: "enc_state \<Rightarrow> int \<Rightarrow> jsnum \<Rightarrow> enc_state" where
  "store st chosen v =
     (case st of (pos, val, taken) \<Rightarrow>
        case taken chosen of
          Some i \<Rightarrow> (pos[i := chosen], val[i := v], taken)
        | None \<Rightarrow> (pos @ [chosen], val @ [v], taken(chosen \<mapsto> length pos)))"

definition place ::
  "int \<Rightarrow> byte list \<Rightarrow> byte list \<Rightarrow> bool \<Rightarrow> jsnum list \<Rightarrow> enc_state \<Rightarrow> nat \<Rightarrow> error + enc_state" where
  "place D salt1 salt2 useDouble elev st orig =
     (let v = elev ! orig in
      if js_eq v (Fin 0) then Inr st
      else case choose_slot D salt1 salt2 useDouble st orig v of
             Inl e \<Rightarrow> Inl e
           | Inr None \<Rightarrow> Inr st
           | Inr (Some chosen) \<Rightarrow> Inr (store st chosen v))"

fun place_all ::
  "int \<Rightarrow> byte list \<Rightarrow> byte list \<Rightarrow> bool \<Rightarrow> jsnum list \<Rightarrow> enc_state \<Rightarrow> nat list \<Rightarrow> error + enc_state" where
  "place_all D salt1 salt2 useDouble elev st [] = Inr st"
| "place_all D salt1 salt2 useDouble elev st (orig # rest) =
     (case place D salt1 salt2 useDouble elev st orig of
        Inl e \<Rightarrow> Inl e
      | Inr st' \<Rightarrow> place_all D salt1 salt2 useDouble elev st' rest)"

text \<open>Storing a position in an \<open>Int32Array\<close> keeps its low 32 bits as a signed value.\<close>

definition to_int32 :: "int \<Rightarrow> int" where
  "to_int32 p = sint (word_of_int p :: 32 word)"

definition sum_squares :: "jsnum list \<Rightarrow> jsnum" where
  "sum_squares vv = foldl (\<lambda>s v. js_add s (js_mul v v)) (Fin 0) vv"

definition finish_signature :: "enc_state \<Rightarrow> SparseSignature" where
  "finish_signature st =
     (case st of (pos, val, taken) \<Rightarrow>
        if pos = [] then \<lparr>sig_idx = [], sig_val = [], sig_norm = Fin 0\<rparr>
        else
          let order = sort_key (\<lambda>i. pos ! i) [0..<length pos];
              vv = map (\<lambda>i. val ! i) order
          in \<lparr>sig_idx = map (\<lambda>i. to_int32 (pos ! i)) order, sig_val = vv,
              sig_norm = js_sqrt (sum_squares vv)\<rparr>)"

definition encodeSparseSignature :: "jsnum list \<Rightarrow> EncodeParams \<Rightarrow> error + SparseSignature" where
  "encodeSparseSignature vec params =
     (if p_k params \<le> 0 then Inl (Error ''k must be positive'')
      else case p_hashing params of
        None \<Rightarrow> Inl (Error ''hashing.dim must be positive'')
      | Some hashing \<Rightarrow>
          if h_dim hashing \<le> 0 then Inl (Error ''hashing.dim must be positive'')
          else
            let elev = damped_elevations (robustZ vec EPS) (p_clipQuantile params);
                idxs = top_indices elev (p_k params);
                salt1 = (case h_salt1 hashing of None \<Rightarrow> DEFAULT_SALT1 | Some s \<Rightarrow> s);
                salt2 = (case h_salt2 hashing of None \<Rightarrow> DEFAULT_SALT2 | Some s \<Rightarrow> s);
                useDouble = (case h_useDoubleHash hashing of None \<Rightarrow> True | Some b \<Rightarrow> b)
            in case place_all (h_dim hashing) salt1 salt2 useDouble elev ([], [], Map.empty) idxs of
                 Inl e \<Rightarrow> Inl e
               | Inr st \<Rightarrow> Inr (finish_signature st))"

section \<open>usad.js: sparse cosine and distance\<close>

function cosine_loop ::
  "int list \<Rightarrow> jsnum list \<Rightarrow> int list \<Rightarrow> jsnum list \<Rightarrow> nat \<Rightarrow> nat \<Rightarrow> jsnum \<Rightarrow> jsnum" where
  "cosine_loop ai av bi bv i j dot =
     (if i < length ai \<and> j < length bi then
        (if ai ! i = bi ! j then
           cosine_loop ai av bi bv (i + 1) (j + 1)
             (js_add dot (js_mul (nth_num av (int i)) (nth_num bv (int j))))
         else if ai ! i < bi ! j then cosine_loop ai av bi bv (i + 1) j dot
         else cosine_loop ai av bi bv i (j + 1) dot)
      else dot)"
  by pat_completeness auto
termination
  by (relation "measure (\<lambda>(ai, av, bi, bv, i, j, dot). (length ai - i) + (length bi - j))") auto

declare cosine_loop.simps [simp del]

definition cosineSparse :: "SparseSignature \<Rightarrow> SparseSignature \<Rightarrow> jsnum \<Rightarrow> jsnum" where
  "cosineSparse a b eps =
     (let dot = cosine_loop (sig_idx a) (sig_val a) (sig_idx b) (sig_val b) 0 0 (Fin 0);
          denom = js_mul (js_add (sig_norm a) eps) (js_add (sig_norm b) eps)
      in if js_gt denom (Fin 0) then js_div dot denom else Fin 0)"

definition distanceSparse :: "SparseSignature \<Rightarrow> SparseSignature \<Rightarrow> jsnum" where
  "distanceSparse a b = js_sub (Fin 1) (cosineSparse a b EPS)"

section \<open>usad.js: conformal quantile\<close>

definition conformalQuantile :: "jsnum list \<Rightarrow> jsnum \<Rightarrow> error + jsnum" where
  "conformalQuantile scores alpha =
     (if \<not> (js_gt alpha (Fin 0) \<and> js_lt alpha (Fin 1)) then Inl (Error ''alpha must be in (0,1)'')
      else
        let n = int (length scores) in
        if n = 0 then Inl (Error ''need calibration scores'')
        else
          let k = max 0 (min (n - 1) (\<lceil>real_of_int (n + 1) * (1 - the_fin alpha)\<rceil> - 1));
              arr = sort_cmp js_sub scores
          in Inr (nth_num arr k))"

section \<open>usad.js: the detector\<close>

text \<open>
  The fields of a \<open>USADetector\<close>. The constructor always installs a hashing object, and
  \<open>kNN\<close> is a neighbour count. A method that raises returns the error alone: the
  state an exception leaves behind is not modelled.
\<close>

record USADetector =
  d_hashing :: HashingParams
  d_k :: int
  d_alpha :: jsnum
  d_kNN :: nat
  d_clip :: jsnum
  calSigs :: "SparseSignature list"
  calScores :: "jsnum list"
  thr :: "jsnum option"

record Prediction =
  isAnomaly :: bool
  score :: jsnum
  threshold_used :: jsnum

definition encode :: "USADetector \<Rightarrow> jsnum list \<Rightarrow> error + SparseSignature" where
  "encode d x =
     encodeSparseSignature x
       \<lparr>p_k = d_k d, p_hashing = Some (d_hashing d), p_clipQuantile = d_clip d\<rparr>"

fun encode_all :: "USADetector \<Rightarrow> jsnum list list \<Rightarrow> error + SparseSignature list" where
  "encode_all d [] = Inr []"
| "encode_all d (v # vs) =
     (case encode d v of
        Inl e \<Rightarrow> Inl e
      | Inr s \<Rightarrow> (case encode_all d vs of Inl e \<Rightarrow> Inl e | Inr ss \<Rightarrow> Inr (s # ss)))"

text \<open>The mean of the \<open>kNN\<close> smallest distances: sort ascending, slice, reduce, divide.\<close>

definition knn_mean :: "nat \<Rightarrow> jsnum list \<Rightarrow> jsnum" where
  "knn_mean kNN dists =
     (let sorted = sort_cmp js_sub dists;
          kEff = min kNN (length sorted)
      in js_div (foldl js_add (Fin 0) (take kEff sorted)) (Fin (real kEff)))"

definition loo_score :: "nat \<Rightarrow> SparseSignature list \<Rightarrow> nat \<Rightarrow> jsnum" where
  "loo_score kNN sigs i =
     (let dists = map (\<lambda>j. distanceSparse (sigs ! i) (sigs ! j))
                    (filter (\<lambda>j. j \<noteq> i) [0..<length sigs])
      in if dists = [] then Fin 0 else knn_mean kNN dists)"

definition calibrate :: "USADetector \<Rightarrow> jsnum list list \<Rightarrow> error + USADetector \<times> jsnum" where
  "calibrate d calibration =
     (case encode_all d calibration of
        Inl e \<Rightarrow> Inl e
      | Inr sigs \<Rightarrow>
          if sigs = [] then Inl (Error ''need calibration vectors'')
          else
            let scores = map (loo_score (d_kNN d) sigs) [0..<length sigs]
            in case conformalQuantile scores (d_alpha d) of
                 Inl e \<Rightarrow> Inl e
               | Inr t \<Rightarrow> Inr (d\<lparr>calSigs := sigs, calScores := scores, thr := Some t\<rparr>, t))"

definition nonconformity :: "USADetector \<Rightarrow> jsnum list \<Rightarrow> error + jsnum" where
  "nonconformity d x =
     (if calSigs d = [] then Inl (Error ''not calibrated'')
      else case encode d x of
        Inl e \<Rightarrow> Inl e
      | Inr sx \<Rightarrow> Inr (knn_mean (d_kNN d) (map (\<lambda>s. distanceSparse sx s) (calSigs d))))"

definition threshold :: "USADetector \<Rightarrow> error + jsnum" where
  "threshold d = (case thr d of None \<Rightarrow> Inl (Error ''threshold not set'') | Some t \<Rightarrow> Inr t)"

definition predict :: "USADetector \<Rightarrow> jsnum list \<Rightarrow> error + Prediction" where
  "predict d x =
     (case nonconformity d x of
        Inl e \<Rightarrow> Inl e
      | Inr s \<Rightarrow>
          (case threshold d of
             Inl e \<Rightarrow> Inl e
           | Inr t \<Rightarrow> Inr \<lparr>isAnomaly = js_gt s t, score = s, threshold_used = t\<rparr>))"

definition updateIfNormal :: "USADetector \<Rightarrow> jsnum list \<Rightarrow> error + bool \<times> USADetector" where
  "updateIfNormal d x =
     (case predict d x of
        Inl e \<Rightarrow> Inl e
      | Inr p \<Rightarrow>
          if isAnomaly p then Inr (False, d)
          else case encode d x of
            Inl e \<Rightarrow> Inl e
          | Inr sx \<Rightarrow>
              let sigs = calSigs d @ [sx];
                  dists = map (\<lambda>s. distanceSparse sx s) (butlast sigs);
                  newScore = (if dists = [] then Fin 0 else knn_mean (d_kNN d) dists);
                  scores = calScores d @ [newScore]
              in case conformalQuantile scores (d_alpha d) of
                   Inl e \<Rightarrow> Inl e
                 | Inr t \<Rightarrow> Inr (True, d\<lparr>calSigs := sigs, calScores := scores, thr := Some t\<rparr>))"

section \<open>The signature data model\<close>

text \<open>
  The L2 norm of a value list, and the invariant of a signature of dimension \<open>D\<close> built
  with sparsity \<open>k\<close>: positions strictly ascending (hence unique) and inside \<open>[0, D)\<close>,
  positions and values of equal length at most \<open>k\<close>, and the stored norm the L2 norm of
  the values.
\<close>

fun sum_of_squares :: "jsnum list \<Rightarrow> jsnum" where
  "sum_of_squares [] = Fin 0"
| "sum_of_squares (v # vs) = js_add (js_mul v v) (sum_of_squares vs)"

definition l2_norm :: "jsnum list \<Rightarrow> jsnum" where
  "l2_norm vs = js_sqrt (sum_of_squares vs)"

definition signature_invariant :: "int \<Rightarrow> int \<Rightarrow> SparseSignature \<Rightarrow> bool" where
  "signature_invariant D k s \<longleftrightarrow>
     sorted_wrt (<) (sig_idx s)
     \<and> (\<forall>p \<in> set (sig_idx s). 0 \<le> p \<and> p < D)
     \<and> length (sig_idx s) = length (sig_val s)
     \<and> int (length (sig_idx s)) \<le> k
     \<and> sig_norm s = l2_norm (sig_val s)"

text \<open>The invariant of the placement loop.\<close>

definition state_ok :: "int \<Rightarrow> enc_state \<Rightarrow> bool" where
  "state_ok D st =
     (case st of (pos, val, taken) \<Rightarrow>
        length val = length pos \<and> distinct pos \<and> (\<forall>p \<in> set pos. 0 \<le> p \<and> p < D)
        \<and> (\<forall>p i. taken p = Some i \<longleftrightarrow> i < length pos \<and> pos ! i = p))"

text \<open>
  Replacing every NaN or infinite entry by 0, as \<open>sanitize\<close> in kk-kernel.js and
  \<open>_safe\<close> in rh-sparse.js do.
\<close>

definition sanitize :: "jsnum list \<Rightarrow> jsnum list" where
  "sanitize arr = map (\<lambda>x. if is_fin x then x else Fin 0) arr"

text \<open>A configuration with the default salts, dimension \<open>2^32\<close> and damping switched off.\<close>

definition cfg_big :: EncodeParams where
  "cfg_big = \<lparr>p_k = 16, p_hashing = Some (default_hashing 4294967296), p_clipQuantile = Fin 1\<rparr>"



text \<open>Both salts fit the 128-byte key block of the hash.\<close>

definition salts_ok :: "HashingParams \<Rightarrow> bool" where
  "salts_ok h \<longleftrightarrow>
     length (case h_salt1 h of None \<Rightarrow> DEFAULT_SALT1 | Some s \<Rightarrow> s) \<le> 128
     \<and> length (case h_salt2 h of None \<Rightarrow> DEFAULT_SALT2 | Some s \<Rightarrow> s) \<le> 128"


section \<open>Detectors in use\<close>

text \<open>The constructor with its defaulting of \<open>hashing\<close>, and the all-default detector.\<close>

definition new_detector ::
  "int \<Rightarrow> int \<Rightarrow> jsnum \<Rightarrow> nat \<Rightarrow> HashingParams option \<Rightarrow> jsnum \<Rightarrow> USADetector" where
  "new_detector D k alpha kNN hashing clipQuantile =
     \<lparr>d_hashing = (case hashing of None \<Rightarrow> default_hashing D | Some h \<Rightarrow> h),
      d_k = k, d_alpha = alpha, d_kNN = kNN, d_clip = clipQuantile,
      calSigs = [], calScores = [], thr = None\<rparr>"

definition default_detector :: USADetector where
  "default_detector = new_detector 4096 16 (Fin (1 / 10)) 25 None (Fin (95 / 100))"

text \<open>\<open>alpha > 0 && alpha < 1\<close>.\<close>

definition alpha_ok :: "jsnum \<Rightarrow> bool" where
  "alpha_ok alpha \<longleftrightarrow> js_gt alpha (Fin 0) \<and> js_lt alpha (Fin 1)"

text \<open>
  The calibrated detectors: those a successful \<open>calibrate\<close> returns, and those obtained
  from them by \<open>updateIfNormal\<close>.
\<close>

inductive calibrated :: "USADetector \<Rightarrow> bool" where
  by_calibrate: "calibrate d0 samples = Inr (d, t) \<Longrightarrow> calibrated d"
| by_update: "calibrated d \<Longrightarrow> updateIfNormal d x = Inr (b, d') \<Longrightarrow> calibrated d'"

text \<open>
  The empty signature, and the default detector after calibration on one and on two
  copies of the vector \<open>[0]\<close>.
\<close>

definition empty_sig :: SparseSignature where
  "empty_sig = \<lparr>sig_idx = [], sig_val = [], sig_norm = Fin 0\<rparr>"

definition det1 :: USADetector where
  "det1 = default_detector\<lparr>calSigs := [empty_sig], calScores := [Fin 0], thr := Some (Fin 0)\<rparr>"

definition det2 :: USADetector where
  "det2 = default_detector\<lparr>calSigs := [empty_sig, empty_sig], calScores := [Fin 1, Fin 1],
                           thr := Some (Fin 1)\<rparr>"

section \<open>rh-sparse.js: the multi-scale tracker\<close>

text \<open>
  A signature as rh-sparse.js and kk-kernel.js use it. A dictionary built from one maps
  a position to its elevation, in insertion order; a position beyond the end of the
  elevations maps to \<open>undefined\<close>, modelled as \<open>None\<close>.
\<close>

record Signature =
  positions :: "int list"
  elevations :: "jsnum list"
  dimension :: int

type_synonym dict = "(int \<times> jsnum option) list"

definition nth_opt :: "'a list \<Rightarrow> nat \<Rightarrow> 'a option" where
  "nth_opt xs i = (if i < length xs then Some (xs ! i) else None)"

fun dict_set :: "dict \<Rightarrow> int \<Rightarrow> jsnum option \<Rightarrow> dict" where
  "dict_set [] k v = [(k, v)]"
| "dict_set ((k', v') # d) k v = (if k' = k then (k, v) # d else (k', v') # dict_set d k v)"

definition dict_get :: "dict \<Rightarrow> int \<Rightarrow> jsnum option" where
  "dict_get d k = (case map_of d k of None \<Rightarrow> None | Some v \<Rightarrow> v)"

text \<open>
  \<open>undefined\<close> in arithmetic is NaN; \<open>x || 0\<close> replaces \<open>undefined\<close>, NaN and 0 by 0.
\<close>

definition to_number :: "jsnum option \<Rightarrow> jsnum" where
  "to_number x = (case x of None \<Rightarrow> NaN | Some v \<Rightarrow> v)"

definition or_zero :: "jsnum option \<Rightarrow> jsnum" where
  "or_zero x = (case x of None \<Rightarrow> Fin 0 | Some v \<Rightarrow> if v = NaN \<or> v = Fin 0 then Fin 0 else v)"

definition to_dict :: "Signature \<Rightarrow> dict" where
  "to_dict sig =
     foldl (\<lambda>d i. dict_set d (positions sig ! i) (nth_opt (elevations sig) i)) []
       [0..<length (positions sig)]"

text \<open>A \<open>Set\<close> built from a list keeps the first occurrence of every element.\<close>

definition keep_first :: "'a list \<Rightarrow> 'a list" where
  "keep_first xs = rev (remdups (rev xs))"

definition sparse_cosine :: "dict \<Rightarrow> dict \<Rightarrow> jsnum" where
  "sparse_cosine a b =
     (if a = [] \<or> b = [] then Fin 0
      else
        let keys = keep_first (map fst a @ map fst b);
            dot = foldl (\<lambda>s k. js_add s (js_mul (or_zero (dict_get a k)) (or_zero (dict_get b k))))
                    (Fin 0) keys;
            na = js_sqrt (foldl (\<lambda>s v. js_add s (js_mul (to_number v) (to_number v))) (Fin 0) (map snd a));
            nb = js_sqrt (foldl (\<lambda>s v. js_add s (js_mul (to_number v) (to_number v))) (Fin 0) (map snd b))
        in if js_eq na (Fin 0) \<or> js_eq nb (Fin 0) then Fin 0
           else js_div dot (js_mul na nb))"

text \<open>
  One ring per scale. The scales are window sizes, non-negative integers; \<open>hist\<close> is an
  object keyed by them, which JavaScript enumerates in ascending order, one entry per
  distinct scale.
\<close>

record ring =
  buf :: "dict list"
  cap :: nat

record MultiScaleAnomaly =
  scales :: "nat list"
  knn_k :: int
  hist :: "(nat \<times> ring) list"

definition new_tracker :: "nat list \<Rightarrow> int \<Rightarrow> MultiScaleAnomaly" where
  "new_tracker scs k =
     \<lparr>scales = scs, knn_k = k,
      hist = map (\<lambda>s. (s, \<lparr>buf = [], cap = s\<rparr>)) (sort (remdups scs))\<rparr>"

definition topk_avg :: "ring \<Rightarrow> dict \<Rightarrow> int \<Rightarrow> jsnum" where
  "topk_avg r q k =
     (if buf r = [] then Fin 0
      else
        let sims = sort_cmp (\<lambda>a b. js_sub b a) (map (\<lambda>s. sparse_cosine q s) (buf r));
            kEff = max 1 (min k (int (length sims)))
        in js_div (foldl js_add (Fin 0) (take (nat kEff) sims)) (Fin (real_of_int kEff)))"

text \<open>\<open>ring.buf.push(q); if (ring.buf.length > ring.cap) ring.buf.shift()\<close>.\<close>

definition push :: "ring \<Rightarrow> dict \<Rightarrow> ring" where
  "push r q =
     (let b = buf r @ [q]
      in if length b > cap r then r\<lparr>buf := tl b\<rparr> else r\<lparr>buf := b\<rparr>)"

record Score =
  combined :: jsnum
  per :: "(nat \<times> jsnum) list"

text \<open>
  \<open>update_and_score\<close>: the first loop scores every ring, the second pushes \<open>q\<close> onto
  every ring, then the scores are averaged.
\<close>

definition update_and_score :: "MultiScaleAnomaly \<Rightarrow> Signature \<Rightarrow> MultiScaleAnomaly \<times> Score" where
  "update_and_score t sig =
     (let q = to_dict sig;
          scored = map (\<lambda>(s, r). (s, js_sub (Fin 1) (topk_avg r q (knn_k t)))) (hist t);
          pushed = map (\<lambda>(s, r). (s, push r q)) (hist t);
          vals = map snd scored;
          comb = (if length vals > 0
                  then js_div (foldl js_add (Fin 0) vals) (Fin (real (length vals)))
                  else Fin 0)
      in (t\<lparr>hist := pushed\<rparr>, \<lparr>combined = comb, per = scored\<rparr>))"

text \<open>A sequence of calls.\<close>

fun run :: "MultiScaleAnomaly \<Rightarrow> Signature list \<Rightarrow> MultiScaleAnomaly" where
  "run t [] = t"
| "run t (sig # sigs) = run (fst (update_and_score t sig)) sigs"

text \<open>The mean of the \<open>n\<close> largest entries of a list.\<close>

definition top_k_average :: "nat \<Rightarrow> real list \<Rightarrow> real" where
  "top_k_average n xs = sum_list (take n (sort_key (\<lambda>x. - x) xs)) / real n"

text \<open>Every ring holds the most recent entries pushed, as many as its capacity allows.\<close>

definition pushed_so_far :: "dict list \<Rightarrow> MultiScaleAnomaly \<Rightarrow> bool" where
  "pushed_so_far pre t \<longleftrightarrow>
     (\<forall>(s, r) \<in> set (hist t). cap r = s \<and> buf r = drop (length pre - s) pre)"

text \<open>Three one-position signatures.\<close>

definition sigA :: Signature where
  "sigA = \<lparr>positions = [1], elevations = [Fin 1], dimension = 8\<rparr>"

definition sigB :: Signature where
  "sigB = \<lparr>positions = [2], elevations = [Fin 1], dimension = 8\<rparr>"

definition sigC :: Signature where
  "sigC = \<lparr>positions = [3], elevations = [Fin 1], dimension = 8\<rparr>"

section \<open>kk-kernel.js: the similarity kernel\<close>

text \<open>
  \<open>l2\<close> and the base cosine. \<open>dict\<close> of kk-kernel.js builds the same dictionary as
  \<open>to_dict\<close>; \<open>Xd[p] !== undefined\<close> fails for an absent position and for one whose
  elevation is missing.
\<close>

definition l2 :: "jsnum list \<Rightarrow> jsnum" where
  "l2 arr = js_sqrt (foldl (\<lambda>s v. js_add s (js_mul v v)) (Fin 0) arr)"

definition baseCosine :: "Signature \<Rightarrow> Signature \<Rightarrow> jsnum \<Rightarrow> jsnum" where
  "baseCosine Q X eps =
     (let Qd = to_dict Q; Xd = to_dict X;
          dot = foldl (\<lambda>dot p. if dict_get Xd p \<noteq> None
                                then js_add dot (js_mul (to_number (dict_get Qd p))
                                                        (to_number (dict_get Xd p)))
                                else dot) (Fin 0) (positions Q)
      in if js_eq dot (Fin 0) then Fin 0
         else js_div dot (js_add (js_mul (l2 (elevations Q)) (l2 (elevations X))) eps))"

text \<open>
  \<open>arr.slice(0, e)\<close> for an integer \<open>e\<close>: a negative end counts from the end of the
  array.
\<close>

definition slice0 :: "'a list \<Rightarrow> int \<Rightarrow> 'a list" where
  "slice0 xs e = (if e < 0 then take (nat (int (length xs) + e)) xs else take (nat e) xs)"

text \<open>
  \<open>anomalySet\<close>: the positions paired with their elevations, sorted by descending
  elevation, cut to \<open>min(M, length)\<close> and collected into a \<open>Set\<close>, here the list of its
  elements in insertion order. \<open>M\<close> is an integer.
\<close>

definition anomalySet :: "Signature \<Rightarrow> int \<Rightarrow> int list" where
  "anomalySet Q M =
     (let pairs = sort_cmp (\<lambda>a b. js_sub (to_number (snd b)) (to_number (snd a)))
                    (map (\<lambda>i. (positions Q ! i, nth_opt (elevations Q) i)) [0..<length (positions Q)])
      in keep_first (map fst (slice0 pairs (min M (int (length pairs))))))"

definition anomalyOverlapFrac :: "Signature \<Rightarrow> Signature \<Rightarrow> int \<Rightarrow> jsnum" where
  "anomalyOverlapFrac Q X M =
     (let A = anomalySet Q M in
      if length A = 0 then Fin 0
      else js_div (Fin (real (length (filter (\<lambda>p. p \<in> set (positions X)) A))))
                  (Fin (real (length A))))"

text \<open>One iteration of the loop of \<open>anomalyAgreementCosine\<close> over the three accumulators.\<close>

definition agreement_step ::
  "dict \<Rightarrow> dict \<Rightarrow> jsnum \<times> jsnum \<times> jsnum \<Rightarrow> int \<Rightarrow> jsnum \<times> jsnum \<times> jsnum" where
  "agreement_step Qd Xd acc p =
     (case acc of (dot, nQa2, nXa2) \<Rightarrow>
        let q = or_zero (dict_get Qd p); x = or_zero (dict_get Xd p)
        in (js_add dot (js_mul q x), js_add nQa2 (js_mul q q), js_add nXa2 (js_mul x x)))"

definition anomalyAgreementCosine :: "Signature \<Rightarrow> Signature \<Rightarrow> int \<Rightarrow> jsnum \<Rightarrow> jsnum" where
  "anomalyAgreementCosine Q X M eps =
     (let A = anomalySet Q M in
      if length A = 0 then Fin 0
      else case foldl (agreement_step (to_dict Q) (to_dict X)) (Fin 0, Fin 0, Fin 0) A of
        (dot, nQa2, nXa2) \<Rightarrow>
          if js_eq dot (Fin 0) then Fin 0
          else js_div dot (js_add (js_mul (js_sqrt nQa2) (js_sqrt nXa2)) eps))"

record KKResult =
  kk_base :: jsnum
  kk_a :: jsnum
  kk_b :: jsnum
  kk_mult :: jsnum
  kk_total :: jsnum

definition kkScore :: "Signature \<Rightarrow> Signature \<Rightarrow> jsnum \<Rightarrow> jsnum \<Rightarrow> int \<Rightarrow> jsnum \<Rightarrow> KKResult" where
  "kkScore Q X beta gamma M eps =
     (let base = baseCosine Q X eps;
          a = anomalyOverlapFrac Q X M;
          b = anomalyAgreementCosine Q X M eps;
          mult = js_add (js_add (Fin 1) (js_mul beta a)) (js_mul gamma b)
      in \<lparr>kk_base = base, kk_a = a, kk_b = b, kk_mult = mult, kk_total = js_mul base mult\<rparr>)"

subsection \<open>The kernel as the specification words it\<close>

text \<open>
  The overlap fraction of two sets, the coordinate of a signature at a position (zero
  where absent), the cosine of two coordinate functions over a set of positions with
  the regulariser \<open>e\<close> in the denominator (the exact cosine when \<open>e = 0\<close>), and the
  set of the \<open>M\<close> positions of largest elevation, ties in position order. A
  signature is well formed when it has one finite elevation per position.
\<close>

definition overlap_frac :: "int set \<Rightarrow> int set \<Rightarrow> real" where
  "overlap_frac A P = (if A = {} then 0 else real (card (A \<inter> P)) / real (card A))"

definition coord :: "Signature \<Rightarrow> int \<Rightarrow> real" where
  "coord S p = (case dict_get (to_dict S) p of Some (Fin v) \<Rightarrow> v | _ \<Rightarrow> 0)"

definition restricted_cosine :: "int set \<Rightarrow> (int \<Rightarrow> real) \<Rightarrow> (int \<Rightarrow> real) \<Rightarrow> real \<Rightarrow> jsnum" where
  "restricted_cosine A q x e =
     (if (\<Sum>p\<in>A. q p * x p) = 0 then Fin 0
      else js_div (Fin (\<Sum>p\<in>A. q p * x p))
                  (Fin (sqrt (\<Sum>p\<in>A. q p * q p) * sqrt (\<Sum>p\<in>A. x p * x p) + e)))"

definition well_formed :: "Signature \<Rightarrow> bool" where
  "well_formed S \<longleftrightarrow>
     length (elevations S) = length (positions S) \<and> (\<forall>v \<in> set (elevations S). is_fin v)"

definition top_positions :: "Signature \<Rightarrow> nat \<Rightarrow> int set" where
  "top_positions Q M =
     set (map fst (take M (sort_key (\<lambda>(p, e). - e)
                             (zip (positions Q) (map the_fin (elevations Q))))))"

text \<open>A position with a finite elevation, as an entry of the array \<open>anomalySet\<close> sorts.\<close>

definition lift_pair :: "int \<times> real \<Rightarrow> int \<times> jsnum option" where
  "lift_pair pe = (fst pe, Some (Fin (snd pe)))"

text \<open>A query and a candidate.\<close>

definition kkQ :: Signature where
  "kkQ = \<lparr>positions = [1, 2, 3], elevations = [Fin (3/5), Fin (4/5), Fin (1/10)], dimension = 8\<rparr>"

definition kkX :: Signature where
  "kkX = \<lparr>positions = [2, 3], elevations = [Fin 1, Fin 1], dimension = 8\<rparr>"

section \<open>Properties\<close>

subsection \<open>Comparator sort\<close>

lemma length_insort_cmp [simp]: "length (insort_cmp cmp x xs) = Suc (length xs)"
  by (induction xs) auto

lemma length_sort_cmp [simp]: "length (sort_cmp cmp xs) = length xs"
  by (induction xs) (auto simp: sort_cmp_def)

lemma set_insort_cmp [simp]: "set (insort_cmp cmp x xs) = insert x (set xs)"
  by (induction xs) auto

lemma set_sort_cmp [simp]: "set (sort_cmp cmp xs) = set xs"
  by (induction xs) (auto simp: sort_cmp_def)

lemma sort_cmp_Cons: "sort_cmp cmp (x # xs) = insort_cmp cmp x (sort_cmp cmp xs)"
  by (simp add: sort_cmp_def)

lemma sort_cmp_Nil [simp]: "sort_cmp cmp [] = []"
  by (simp add: sort_cmp_def)

lemma js_sub_Fin [simp]: "js_sub (Fin a) (Fin b) = Fin (a - b)"
  by (simp add: js_sub_def)




subsection \<open>Conformal quantile\<close>



subsection \<open>The hash and the placement loop\<close>

lemma blake2bIndex_range:
  "blake2bIndex i D key = Inr p \<Longrightarrow> 0 < D \<Longrightarrow> 0 \<le> p \<and> p < D"
  by (auto simp: blake2bIndex_def split: sum.splits if_splits)

lemma blake2bIndex_ok:
  "D \<noteq> 0 \<Longrightarrow> length key \<le> 128 \<Longrightarrow> \<exists>p. blake2bIndex i D key = Inr p"
  by (simp add: blake2bIndex_def blake2b_def Let_def)

lemma choose_slot_range:
  "choose_slot D s1 s2 ud st orig v = Inr (Some c) \<Longrightarrow> 0 < D \<Longrightarrow> 0 \<le> c \<and> c < D"
  by (auto simp: choose_slot_def split: prod.splits sum.splits option.splits if_splits
           dest: blake2bIndex_range)

lemma choose_slot_ok:
  "D \<noteq> 0 \<Longrightarrow> length s1 \<le> 128 \<Longrightarrow> length s2 \<le> 128 \<Longrightarrow>
   \<exists>r. choose_slot D s1 s2 ud st orig v = Inr r"
  using blake2bIndex_ok [of D s1 "int orig"] blake2bIndex_ok [of D s2 "int orig"]
  by (auto simp: choose_slot_def split: prod.splits sum.splits option.splits)

lemma store_ok:
  assumes "state_ok D st" and "0 \<le> c" and "c < D"
  shows "state_ok D (store st c v)"
proof -
  obtain pos val taken where st: "st = (pos, val, taken)" by (cases st)
  show ?thesis
  proof (cases "taken c")
    case None
    have "c \<notin> set pos"
    proof
      assume "c \<in> set pos"
      then obtain i where "i < length pos" "pos ! i = c"
        by (auto simp: in_set_conv_nth)
      then have "taken c = Some i"
        using assms(1) by (simp add: state_ok_def st)
      with None show False by simp
    qed
    then show ?thesis
      using assms None by (auto simp: state_ok_def st store_def nth_append)
  next
    case (Some i)
    then have "i < length pos" "pos ! i = c"
      using assms(1) by (auto simp: state_ok_def st)
    then have "pos[i := c] = pos"
      by (metis list_update_id)
    then have "store st c v = (pos, val[i := v], taken)"
      using Some by (simp add: store_def st)
    then show ?thesis
      using assms(1) by (simp add: state_ok_def st)
  qed
qed

lemma store_length:
  "length (fst (store st c v)) \<le> Suc (length (fst st))"
  by (auto simp: store_def split: prod.splits option.splits)

lemma place_ok:
  assumes "place D s1 s2 ud elev st orig = Inr st'" and "state_ok D st" and "0 < D"
  shows "state_ok D st' \<and> length (fst st') \<le> Suc (length (fst st))"
proof (cases "js_eq (elev ! orig) (Fin 0)")
  case True
  with assms show ?thesis by (simp add: place_def)
next
  case False
  show ?thesis
  proof (cases "choose_slot D s1 s2 ud st orig (elev ! orig)")
    case (Inl e)
    with assms False show ?thesis by (simp add: place_def)
  next
    case (Inr r)
    show ?thesis
    proof (cases r)
      case None
      with assms False Inr show ?thesis by (simp add: place_def)
    next
      case (Some c)
      with assms False Inr have st': "st' = store st c (elev ! orig)"
        by (simp add: place_def)
      have "0 \<le> c \<and> c < D"
        using choose_slot_range Inr Some assms(3) by blast
      then show ?thesis
        using store_ok [OF assms(2)] store_length st' by simp
    qed
  qed
qed

lemma place_all_ok:
  "place_all D s1 s2 ud elev st idxs = Inr st' \<Longrightarrow> state_ok D st \<Longrightarrow> 0 < D \<Longrightarrow>
   state_ok D st' \<and> length (fst st') \<le> length (fst st) + length idxs"
proof (induction idxs arbitrary: st)
  case Nil
  then show ?case by simp
next
  case (Cons orig rest)
  then obtain st1 where p: "place D s1 s2 ud elev st orig = Inr st1"
    and r: "place_all D s1 s2 ud elev st1 rest = Inr st'"
    by (auto split: sum.splits)
  from place_ok [OF p Cons.prems(2,3)]
  have "state_ok D st1" "length (fst st1) \<le> Suc (length (fst st))" by simp_all
  with Cons.IH [OF r] Cons.prems(3) show ?case by fastforce
qed

lemma state_ok_init: "state_ok D ([], [], Map.empty)"
  by (simp add: state_ok_def)

lemma length_top_indices: "0 < k \<Longrightarrow> int (length (top_indices elev k)) \<le> k"
  by (simp add: top_indices_def Let_def)

lemma to_int32_id: "0 \<le> p \<Longrightarrow> p < 2 ^ 31 \<Longrightarrow> to_int32 p = p"
  by (simp add: to_int32_def sint_sbintrunc' signed_take_bit_int_eq_self)

lemma js_add_commute: "js_add x y = js_add y x"
  by (cases x; cases y) simp_all

lemma js_add_assoc: "js_add (js_add x y) z = js_add x (js_add y z)"
  by (cases x; cases y; cases z) simp_all

lemma js_add_zero_right [simp]: "js_add x (Fin 0) = x"
  by (cases x) simp_all

lemma foldl_squares:
  "foldl (\<lambda>s v. js_add s (js_mul v v)) a vs = js_add a (sum_of_squares vs)"
  by (induction vs arbitrary: a) (simp_all add: js_add_assoc)

lemma sum_squares_eq: "sum_squares vs = sum_of_squares vs"
  by (simp add: sum_squares_def foldl_squares js_add_commute [of "Fin 0"])

lemma finish_signature_inv:
  assumes ok: "state_ok D (pos, val, taken)" and D: "D \<le> 2 ^ 31"
    and len: "int (length pos) \<le> k"
  shows "signature_invariant D k (finish_signature (pos, val, taken))"
proof (cases "pos = []")
  case True
  then show ?thesis
    using len by (simp add: finish_signature_def signature_invariant_def l2_norm_def)
next
  case False
  define order where "order = sort_key (\<lambda>i. pos ! i) [0..<length pos]"
  have dpos: "distinct pos" and rng: "\<forall>p \<in> set pos. 0 \<le> p \<and> p < D"
    using ok by (simp_all add: state_ok_def)
  have so: "set order = {0..<length pos}" and "distinct order"
    and lo: "length order = length pos"
    by (simp_all add: order_def)
  have srt: "sorted (map (\<lambda>i. pos ! i) order)"
    unfolding order_def by (rule sorted_sort_key)
  have "inj_on (\<lambda>i. pos ! i) (set order)"
    using dpos so by (auto simp: inj_on_def nth_eq_iff_index_eq)
  with \<open>distinct order\<close> have dst: "distinct (map (\<lambda>i. pos ! i) order)"
    by (simp add: distinct_map)
  have inr: "\<forall>i \<in> set order. 0 \<le> pos ! i \<and> pos ! i < D"
    using rng so by auto
  then have idx: "map (\<lambda>i. to_int32 (pos ! i)) order = map (\<lambda>i. pos ! i) order"
    using D by (auto intro!: to_int32_id)
  have fs: "finish_signature (pos, val, taken) =
      \<lparr>sig_idx = map (\<lambda>i. pos ! i) order, sig_val = map (\<lambda>i. val ! i) order,
       sig_norm = js_sqrt (sum_squares (map (\<lambda>i. val ! i) order))\<rparr>"
    using False idx by (simp add: finish_signature_def Let_def order_def)
  show ?thesis
    unfolding fs signature_invariant_def
    using srt dst inr lo len
    by (simp add: strict_sorted_iff l2_norm_def sum_squares_eq)
qed


text \<open>
  C4 (amended). Every signature that \<open>encodeSparseSignature\<close> returns for a dimension
  \<open>D \<le> 2^31\<close> satisfies the data-model invariant: positions strictly ascending and
  in \<open>[0, D)\<close>, as many values as positions, at most \<open>k\<close> of them, and the stored norm
  the L2 norm of the values.
\<close>

theorem encode_signature_invariant:
  assumes enc: "encodeSparseSignature vec params = Inr s"
    and h: "p_hashing params = Some hashing"
    and D: "h_dim hashing \<le> 2 ^ 31"
  shows "signature_invariant (h_dim hashing) (p_k params) s"
proof -
  let ?D = "h_dim hashing"
  let ?elev = "damped_elevations (robustZ vec EPS) (p_clipQuantile params)"
  let ?idxs = "top_indices ?elev (p_k params)"
  from enc h have k: "0 < p_k params" and Dpos: "0 < ?D"
    by (auto simp: encodeSparseSignature_def split: if_splits)
  from enc h k Dpos obtain s1 s2 ud st where
    pa: "place_all ?D s1 s2 ud ?elev ([], [], Map.empty) ?idxs = Inr st"
    and s: "s = finish_signature st"
    by (auto simp: encodeSparseSignature_def Let_def split: sum.splits)
  from place_all_ok [OF pa state_ok_init Dpos]
  have ok: "state_ok ?D st" and "length (fst st) \<le> length ?idxs" by simp_all
  with length_top_indices [OF k, of ?elev]
  have len: "int (length (fst st)) \<le> p_k params" by linarith
  obtain pos val taken where st: "st = (pos, val, taken)" by (cases st)
  show ?thesis
    using finish_signature_inv [of ?D pos val taken "p_k params"] ok D len
    unfolding s st by simp
qed

subsection \<open>Evaluating the encoder\<close>

lemma digest_0_salt1:
  "blake2b (to8LE 0) 16 DEFAULT_SALT1 =
     Inr [86, 60, 67, 136, 110, 223, 53, 89, 75, 175, 15, 139, 158, 90, 198, 62]"
  by code_simp

lemma index_0_big: "blake2bIndex 0 4294967296 DEFAULT_SALT1 = Inr 2286107734"
  by (simp add: blake2bIndex_def digest_0_salt1 u64leFromDigest16_def getUint32_le_def
        push_bit_eq_mult)

lemma index_0_4096: "blake2bIndex 0 4096 DEFAULT_SALT1 = Inr 3158"
  by (simp add: blake2bIndex_def digest_0_salt1 u64leFromDigest16_def getUint32_le_def
        push_bit_eq_mult)

lemma upt_3: "[0..<3] = [0, 1, 2]"
  by code_simp

lemmas sort_eval = sort_cmp_Cons js_gt_def nth_num_def

lemma rz_100: "robustZ [Fin 1, Fin 0, Fin 0] EPS = [Fin (5000000000000000 / 7413), Fin 0, Fin 0]"
  by (simp add: robustZ_def median_def sort_eval EPS_def Let_def)

lemma elev_100:
  "damped_elevations [Fin (5000000000000000 / 7413), Fin 0, Fin 0] (Fin 1) = [Fin (5000000000000000 / 7413), Fin 0, Fin 0]"
  by (simp add: damped_elevations_def)

lemma top_100: "top_indices [Fin (5000000000000000 / 7413), Fin 0, Fin 0] 16 = [0, 1, 2]"
  by (simp add: top_indices_def upt_3 sort_eval Let_def)

lemma to_int32_big: "to_int32 2286107734 = - 2008859562"
  by (simp add: to_int32_def)

lemma norm_single: "js_sqrt (sum_squares [Fin a]) = Fin \<bar>a\<bar>"
  by (simp add: sum_squares_def)

lemma place_100:
  "place_all 4294967296 DEFAULT_SALT1 DEFAULT_SALT2 True [Fin (5000000000000000 / 7413), Fin 0, Fin 0]
     ([], [], Map.empty) [0, 1, 2]
   = Inr ([2286107734], [Fin (5000000000000000 / 7413)], [2286107734 \<mapsto> 0])"
  by (simp add: place_def choose_slot_def store_def js_eq_def index_0_big)

text \<open>
  C4 as stated fails for a dimension above \<open>2^31\<close>: feature 0 hashes to position
  2286107734 of \<open>[0, 2^32)\<close>, which the \<open>Int32Array\<close> stores as a negative number.
\<close>

theorem encode_position_overflow:
  "encodeSparseSignature [Fin 1, Fin 0, Fin 0] cfg_big =
     Inr \<lparr>sig_idx = [- 2008859562], sig_val = [Fin (5000000000000000 / 7413)],
          sig_norm = Fin (5000000000000000 / 7413)\<rparr>"
proof -
  let ?elev = "damped_elevations (robustZ [Fin 1, Fin 0, Fin 0] EPS) (Fin 1)"
  have "encodeSparseSignature [Fin 1, Fin 0, Fin 0] cfg_big =
      (case place_all 4294967296 DEFAULT_SALT1 DEFAULT_SALT2 True ?elev ([], [], Map.empty)
              (top_indices ?elev 16) of
         Inl e \<Rightarrow> Inl e | Inr st \<Rightarrow> Inr (finish_signature st))"
    by (simp add: encodeSparseSignature_def cfg_big_def default_hashing_def Let_def)
  also have "\<dots> = Inr (finish_signature
      ([2286107734], [Fin (5000000000000000 / 7413)], [2286107734 \<mapsto> 0]))"
    by (simp only: rz_100 elev_100 top_100 place_100 sum.case)
  also have "\<dots> = Inr \<lparr>sig_idx = [- 2008859562], sig_val = [Fin (5000000000000000 / 7413)],
          sig_norm = Fin (5000000000000000 / 7413)\<rparr>"
    by (simp add: finish_signature_def norm_single to_int32_big)
  finally show ?thesis .
qed

subsection \<open>Finite vectors\<close>





















subsection \<open>Totality and NaN entries\<close>

lemma place_all_total:
  "D \<noteq> 0 \<Longrightarrow> length s1 \<le> 128 \<Longrightarrow> length s2 \<le> 128 \<Longrightarrow>
   \<exists>st'. place_all D s1 s2 ud elev st idxs = Inr st'"
proof (induction idxs arbitrary: st)
  case Nil
  then show ?case by (cases st) simp
next
  case (Cons orig rest)
  obtain r where "choose_slot D s1 s2 ud st orig (elev ! orig) = Inr r"
    using choose_slot_ok [OF Cons.prems] by blast
  then have "\<exists>st1. place D s1 s2 ud elev st orig = Inr st1"
    by (cases r) (simp_all add: place_def Let_def del: split_paired_Ex)
  then obtain st1 where "place D s1 s2 ud elev st orig = Inr st1" ..
  then show ?case using Cons.IH [OF Cons.prems] by simp
qed

lemma encode_total:
  assumes "0 < p_k params" and "p_hashing params = Some h" and "0 < h_dim h" and "salts_ok h"
  shows "\<exists>s. encodeSparseSignature vec params = Inr s"
proof -
  let ?s1 = "case h_salt1 h of None \<Rightarrow> DEFAULT_SALT1 | Some s \<Rightarrow> s"
  let ?s2 = "case h_salt2 h of None \<Rightarrow> DEFAULT_SALT2 | Some s \<Rightarrow> s"
  have "h_dim h \<noteq> 0" "length ?s1 \<le> 128" "length ?s2 \<le> 128"
    using assms(3,4) by (simp_all add: salts_ok_def)
  from place_all_total [OF this]
  obtain st where "place_all (h_dim h) ?s1 ?s2
      (case h_useDoubleHash h of None \<Rightarrow> True | Some b \<Rightarrow> b)
      (damped_elevations (robustZ vec EPS) (p_clipQuantile params)) ([], [], Map.empty)
      (top_indices (damped_elevations (robustZ vec EPS) (p_clipQuantile params)) (p_k params)) = Inr st"
    by blast
  then show ?thesis
    using assms(1-3) by (simp add: encodeSparseSignature_def Let_def del: split_paired_Ex)
qed

lemma sanitize_finite: "\<forall>x \<in> set vec. is_fin x \<Longrightarrow> sanitize vec = vec"
  by (induction vec) (simp_all add: sanitize_def)

lemma salts_ok_default [simp]: "salts_ok (default_hashing D)"
  by (simp add: salts_ok_def default_hashing_def DEFAULT_SALT1_def DEFAULT_SALT2_def)

text \<open>
  C2 (amended). With \<open>k > 0\<close>, a dimension \<open>D > 0\<close> and salts of at most 128 bytes,
  \<open>encodeSparseSignature\<close> never raises, whatever NaN or infinite entries the vector
  holds. It does not sanitize: the signature equals that of the sanitized vector when no
  entry is NaN or infinite, where the two vectors are the same.
\<close>

theorem encode_never_raises:
  assumes "0 < p_k params" and "p_hashing params = Some h" and "0 < h_dim h" and "salts_ok h"
  shows "(\<exists>s. encodeSparseSignature vec params = Inr s)
         \<and> ((\<forall>x \<in> set vec. is_fin x) \<longrightarrow>
              encodeSparseSignature (sanitize vec) params = encodeSparseSignature vec params)"
  using encode_total [OF assms] sanitize_finite by auto

theorem encode_never_raises_witness:
  "(\<exists>s. encodeSparseSignature [NaN, PInf, Fin 2] default_params = Inr s)
   \<and> encodeSparseSignature (sanitize [Fin 1, Fin 2]) default_params
       = encodeSparseSignature [Fin 1, Fin 2] default_params"
proof -
  have h: "p_hashing default_params = Some (default_hashing 4096)"
    and k: "0 < p_k default_params" and D: "0 < h_dim (default_hashing 4096)"
    by (simp_all add: default_params_def default_hashing_def)
  show ?thesis
    using encode_never_raises [OF k h D, of "[NaN, PInf, Fin 2]"]
      encode_never_raises [OF k h D, of "[Fin 1, Fin 2]"]
    by simp
qed


lemma init_place:
  "blake2bIndex (int orig) D s1 = Inr p \<Longrightarrow> \<not> js_eq (elev ! orig) (Fin 0) \<Longrightarrow>
   place D s1 s2 ud elev ([], [], Map.empty) orig = Inr ([p], [elev ! orig], [p \<mapsto> 0])"
  by (simp add: place_def choose_slot_def store_def)

lemma skip_place:
  "js_eq (elev ! orig) (Fin 0) \<Longrightarrow> place D s1 s2 ud elev st orig = Inr st"
  by (simp add: place_def)

lemma encode_nan:
  "encodeSparseSignature [NaN] default_params =
     Inr \<lparr>sig_idx = [3158], sig_val = [NaN], sig_norm = NaN\<rparr>"
proof -
  have rz: "robustZ [NaN] EPS = [NaN]"
    by (simp add: robustZ_def median_def sort_eval js_sub_def EPS_def Let_def)
  have el: "damped_elevations [NaN] (Fin (95 / 100)) = [NaN]"
    by (simp add: damped_elevations_def sort_eval js_sub_def Let_def)
  have ti: "top_indices [NaN] 16 = [0]"
    by (simp add: top_indices_def Let_def sort_cmp_Cons)
  have pl: "place_all 4096 DEFAULT_SALT1 DEFAULT_SALT2 True [NaN] ([], [], Map.empty) [0]
      = Inr ([3158], [NaN], [3158 \<mapsto> 0])"
    using init_place [of 0 4096 DEFAULT_SALT1 3158 "[NaN]"] index_0_4096
    by (simp add: js_eq_def)
  have "encodeSparseSignature [NaN] default_params =
      (case place_all 4096 DEFAULT_SALT1 DEFAULT_SALT2 True
              (damped_elevations (robustZ [NaN] EPS) (Fin (95 / 100))) ([], [], Map.empty)
              (top_indices (damped_elevations (robustZ [NaN] EPS) (Fin (95 / 100))) 16) of
         Inl e \<Rightarrow> Inl e | Inr st \<Rightarrow> Inr (finish_signature st))"
    by (simp add: encodeSparseSignature_def default_params_def default_hashing_def Let_def)
  also have "\<dots> = Inr (finish_signature ([3158], [NaN], [3158 \<mapsto> 0]))"
    by (simp only: rz el ti pl sum.case)
  also have "\<dots> = Inr \<lparr>sig_idx = [3158], sig_val = [NaN], sig_norm = NaN\<rparr>"
    by (simp add: finish_signature_def sum_squares_def to_int32_def)
  finally show ?thesis .
qed

lemma encode_zero:
  "encodeSparseSignature [Fin 0] default_params =
     Inr \<lparr>sig_idx = [], sig_val = [], sig_norm = Fin 0\<rparr>"
proof -
  have rz: "robustZ [Fin 0] EPS = [Fin 0]"
    by (simp add: robustZ_def median_def sort_eval EPS_def Let_def)
  have el: "damped_elevations [Fin 0] (Fin (95 / 100)) = [Fin 0]"
    by (simp add: damped_elevations_def sort_eval Let_def)
  have ti: "top_indices [Fin 0] 16 = [0]"
    by (simp add: top_indices_def Let_def sort_cmp_Cons)
  have pl: "place_all 4096 DEFAULT_SALT1 DEFAULT_SALT2 True [Fin 0] ([], [], Map.empty) [0]
      = Inr ([], [], Map.empty)"
    by (simp add: skip_place js_eq_def)
  have "encodeSparseSignature [Fin 0] default_params =
      (case place_all 4096 DEFAULT_SALT1 DEFAULT_SALT2 True
              (damped_elevations (robustZ [Fin 0] EPS) (Fin (95 / 100))) ([], [], Map.empty)
              (top_indices (damped_elevations (robustZ [Fin 0] EPS) (Fin (95 / 100))) 16) of
         Inl e \<Rightarrow> Inl e | Inr st \<Rightarrow> Inr (finish_signature st))"
    by (simp add: encodeSparseSignature_def default_params_def default_hashing_def Let_def)
  also have "\<dots> = Inr (finish_signature ([], [], Map.empty))"
    by (simp only: rz el ti pl sum.case)
  also have "\<dots> = Inr \<lparr>sig_idx = [], sig_val = [], sig_norm = Fin 0\<rparr>"
    by (simp add: finish_signature_def)
  finally show ?thesis .
qed

text \<open>
  C2 as stated fails: \<open>[NaN]\<close> encodes to a one-position signature whose value and norm
  are NaN, while its sanitized form \<open>[0]\<close> encodes to the empty signature.
\<close>

theorem nan_not_sanitized:
  "encodeSparseSignature [NaN] default_params =
     Inr \<lparr>sig_idx = [3158], sig_val = [NaN], sig_norm = NaN\<rparr>
   \<and> encodeSparseSignature (sanitize [NaN]) default_params =
     Inr \<lparr>sig_idx = [], sig_val = [], sig_norm = Fin 0\<rparr>"
  using encode_nan encode_zero by (simp add: sanitize_def)

theorem encode_signature_invariant_witness:
  "signature_invariant 4096 16 \<lparr>sig_idx = [3158], sig_val = [NaN], sig_norm = NaN\<rparr>"
  using encode_signature_invariant [OF encode_nan, of "default_hashing 4096"]
  by (simp add: default_params_def default_hashing_def)

subsection \<open>Self-similarity and collisions at concrete inputs\<close>










lemma js_gt_irrefl [simp]: "\<not> js_gt x x"
  by (cases x) (simp_all add: js_gt_def)




subsection \<open>Calibration and online update\<close>

lemma conformalQuantile_Inr_iff:
  "(\<exists>t. conformalQuantile scores alpha = Inr t) \<longleftrightarrow> alpha_ok alpha \<and> scores \<noteq> []"
  by (auto simp: conformalQuantile_def alpha_ok_def Let_def)

lemma conformalQuantile_Inl_iff:
  "(\<exists>e. conformalQuantile scores alpha = Inl e) \<longleftrightarrow> \<not> alpha_ok alpha \<or> scores = []"
  by (auto simp: conformalQuantile_def alpha_ok_def Let_def)

lemma encode_valid:
  "encode d x = Inr s \<Longrightarrow> 0 < d_k d \<and> 0 < h_dim (d_hashing d)"
  by (auto simp: encode_def encodeSparseSignature_def split: if_splits)

lemma encode_all_total:
  assumes "0 < d_k d" and "0 < h_dim (d_hashing d)" and "salts_ok (d_hashing d)"
  shows "\<exists>sigs. encode_all d samples = Inr sigs \<and> length sigs = length samples"
proof (induction samples)
  case Nil
  then show ?case by simp
next
  case (Cons v vs)
  obtain s where "encode d v = Inr s"
    using encode_total [of "\<lparr>p_k = d_k d, p_hashing = Some (d_hashing d),
        p_clipQuantile = d_clip d\<rparr>" "d_hashing d" v] assms
    unfolding encode_def by auto
  with Cons show ?case by auto
qed

lemma encode_all_valid:
  "encode_all d samples = Inr sigs \<Longrightarrow> sigs \<noteq> [] \<Longrightarrow> 0 < d_k d \<and> 0 < h_dim (d_hashing d)"
  by (cases samples) (auto split: sum.splits dest: encode_valid)

text \<open>
  C7 (amended). For a detector whose encoder configuration is valid (\<open>k > 0\<close>, dimension
  \<open>> 0\<close>, salts of at most 128 bytes), \<open>calibrate\<close> raises exactly when the samples
  are empty or \<open>alpha\<close> is outside (0,1); otherwise it completes, stores the signatures,
  the leave-one-out scores and the threshold, and returns the conformal quantile of the
  scores.
\<close>

theorem calibrate_raises_iff:
  assumes "0 < d_k d" and "0 < h_dim (d_hashing d)" and "salts_ok (d_hashing d)"
  shows "((\<exists>e. calibrate d samples = Inl e) \<longleftrightarrow> samples = [] \<or> \<not> alpha_ok (d_alpha d))
         \<and> (samples \<noteq> [] \<and> alpha_ok (d_alpha d) \<longrightarrow>
              (\<exists>sigs t. encode_all d samples = Inr sigs
                 \<and> conformalQuantile (map (loo_score (d_kNN d) sigs) [0..<length sigs]) (d_alpha d) = Inr t
                 \<and> calibrate d samples =
                     Inr (d\<lparr>calSigs := sigs,
                            calScores := map (loo_score (d_kNN d) sigs) [0..<length sigs],
                            thr := Some t\<rparr>, t)))"
proof -
  obtain sigs where sigs: "encode_all d samples = Inr sigs" and len: "length sigs = length samples"
    using encode_all_total [OF assms] by blast
  let ?scores = "map (loo_score (d_kNN d) sigs) [0..<length sigs]"
  show ?thesis
  proof (cases "samples = []")
    case True
    then show ?thesis using sigs len by (simp add: calibrate_def)
  next
    case False
    then have ne: "sigs \<noteq> []" "?scores \<noteq> []" using len by auto
    show ?thesis
    proof (cases "alpha_ok (d_alpha d)")
      case True
      then obtain t where t: "conformalQuantile ?scores (d_alpha d) = Inr t"
        using conformalQuantile_Inr_iff [of ?scores "d_alpha d"] ne by blast
      then show ?thesis
        using sigs ne False True by (simp add: calibrate_def Let_def)
    next
      case no: False
      then obtain e where "conformalQuantile ?scores (d_alpha d) = Inl e"
        using conformalQuantile_Inl_iff [of ?scores "d_alpha d"] by blast
      then show ?thesis
        using sigs ne False no by (simp add: calibrate_def Let_def)
    qed
  qed
qed

lemma calibrated_inv:
  "calibrated d \<Longrightarrow>
   calSigs d \<noteq> [] \<and> thr d \<noteq> None \<and> alpha_ok (d_alpha d) \<and> 0 < d_k d \<and> 0 < h_dim (d_hashing d)"
proof (induction rule: calibrated.induct)
  case (by_calibrate d0 samples d t)
  then obtain sigs where sigs: "encode_all d0 samples = Inr sigs" and ne: "sigs \<noteq> []"
    and q: "conformalQuantile (map (loo_score (d_kNN d0) sigs) [0..<length sigs]) (d_alpha d0) = Inr t"
    and d: "d = d0\<lparr>calSigs := sigs,
                   calScores := map (loo_score (d_kNN d0) sigs) [0..<length sigs], thr := Some t\<rparr>"
    by (auto simp: calibrate_def Let_def split: sum.splits if_splits)
  have "alpha_ok (d_alpha d0)"
    using conformalQuantile_Inr_iff q by blast
  then show ?case
    using encode_all_valid [OF sigs ne] ne by (simp add: d)
next
  case (by_update d x b d')
  from by_update.hyps(2) have "d' = d \<or> (\<exists>sx sc t.
      d' = d\<lparr>calSigs := calSigs d @ [sx], calScores := calScores d @ [sc], thr := Some t\<rparr>)"
    by (auto simp: updateIfNormal_def Let_def split: sum.splits if_splits)
  then show ?case using by_update.IH by auto
qed

text \<open>
  C10. For a calibrated detector and an input on which \<open>predict\<close> returns: if the
  prediction is an anomaly, \<open>updateIfNormal\<close> returns false and the detector is
  unchanged; otherwise it returns true, and the detector differs only in one appended
  signature, one appended score and the recomputed threshold.
\<close>

theorem updateIfNormal_frame:
  assumes "calibrated d" and "predict d x = Inr p"
  shows "(isAnomaly p \<longrightarrow> updateIfNormal d x = Inr (False, d))
         \<and> (\<not> isAnomaly p \<longrightarrow>
              (\<exists>sx sc t. updateIfNormal d x =
                 Inr (True, d\<lparr>calSigs := calSigs d @ [sx], calScores := calScores d @ [sc],
                               thr := Some t\<rparr>)))"
proof -
  from assms(2) obtain sx where sx: "encode d x = Inr sx"
    by (auto simp: predict_def nonconformity_def split: sum.splits if_splits)
  have a: "alpha_ok (d_alpha d)" using calibrated_inv [OF assms(1)] by simp
  define sc where "sc =
      (if map (\<lambda>s. distanceSparse sx s) (butlast (calSigs d @ [sx])) = [] then Fin 0
       else knn_mean (d_kNN d) (map (\<lambda>s. distanceSparse sx s) (butlast (calSigs d @ [sx]))))"
  obtain t where t: "conformalQuantile (calScores d @ [sc]) (d_alpha d) = Inr t"
    using conformalQuantile_Inr_iff [of "calScores d @ [sc]" "d_alpha d"] a by auto
  have "updateIfNormal d x = Inr (False, d)" if "isAnomaly p"
    using assms(2) that by (simp add: updateIfNormal_def)
  moreover have "updateIfNormal d x =
      Inr (True, d\<lparr>calSigs := calSigs d @ [sx], calScores := calScores d @ [sc],
                    thr := Some t\<rparr>)" if "\<not> isAnomaly p"
  proof -
    have "updateIfNormal d x =
        (case conformalQuantile (calScores d @ [sc]) (d_alpha d) of
           Inl e \<Rightarrow> Inl e
         | Inr t \<Rightarrow> Inr (True, d\<lparr>calSigs := calSigs d @ [sx],
                                   calScores := calScores d @ [sc], thr := Some t\<rparr>))"
      unfolding updateIfNormal_def Let_def sc_def using assms(2) sx that by simp
    then show ?thesis using t by simp
  qed
  ultimately show ?thesis by blast
qed

subsection \<open>The detector at concrete inputs\<close>

lemma encode_default_zero: "encode default_detector [Fin 0] = Inr empty_sig"
  using encode_zero
  by (simp add: encode_def default_detector_def new_detector_def default_params_def empty_sig_def)

lemma encode_det2_zero: "encode det2 [Fin 0] = Inr empty_sig"
  using encode_default_zero by (simp add: encode_def det2_def)

lemma distance_empty: "distanceSparse empty_sig empty_sig = Fin 1"
  by (simp add: distanceSparse_def cosineSparse_def empty_sig_def cosine_loop.simps EPS_def
        js_gt_def Let_def)

lemma knn_mean_one: "knn_mean 25 [Fin 1] = Fin 1"
  by (simp add: knn_mean_def sort_cmp_Cons Let_def)

lemma knn_mean_two: "knn_mean 25 [Fin 1, Fin 1] = Fin 1"
  by (simp add: knn_mean_def sort_cmp_Cons js_gt_def Let_def)

lemma upt_2: "[0..<2] = [0, 1]"
  by code_simp

lemma scores_two:
  "map (loo_score 25 [empty_sig, empty_sig]) [0..<length [empty_sig, empty_sig]] = [Fin 1, Fin 1]"
  by (simp add: loo_score_def upt_2 distance_empty knn_mean_one Let_def)

lemma quantile_two: "conformalQuantile [Fin 1, Fin 1] (Fin (1 / 10)) = Inr (Fin 1)"
proof -
  have "\<lceil>(3::real) * (1 - 1 / 10)\<rceil> = 3" by (simp add: ceiling_eq_iff)
  then show ?thesis
    by (simp add: conformalQuantile_def js_gt_def sort_cmp_Cons nth_num_def Let_def)
qed

lemma calibrate_two: "calibrate default_detector [[Fin 0], [Fin 0]] = Inr (det2, Fin 1)"
proof -
  have e: "encode_all default_detector [[Fin 0], [Fin 0]] = Inr [empty_sig, empty_sig]"
    by (simp add: encode_default_zero)
  have k: "d_kNN default_detector = 25" and a: "d_alpha default_detector = Fin (1 / 10)"
    by (simp_all add: default_detector_def new_detector_def)
  show ?thesis
    unfolding calibrate_def e k a Let_def sum.case scores_two quantile_two
    by (simp add: det2_def)
qed

lemma predict_two:
  "predict det2 [Fin 0] = Inr \<lparr>isAnomaly = False, score = Fin 1, threshold_used = Fin 1\<rparr>"
proof -
  have "nonconformity det2 [Fin 0] = Inr (Fin 1)"
    using encode_det2_zero
    by (simp add: nonconformity_def det2_def default_detector_def new_detector_def
          distance_empty knn_mean_two)
  moreover have "threshold det2 = Inr (Fin 1)"
    by (simp add: threshold_def det2_def)
  ultimately show ?thesis
    by (simp add: predict_def js_gt_def)
qed

lemma upt_1: "[0..<1] = [0]"
  by code_simp

lemma quantile_one: "conformalQuantile [Fin 0] (Fin (1 / 10)) = Inr (Fin 0)"
proof -
  have "\<lceil>(2::real) * (1 - 1 / 10)\<rceil> = 2" by (simp add: ceiling_eq_iff)
  then show ?thesis
    by (simp add: conformalQuantile_def js_gt_def sort_cmp_Cons nth_num_def Let_def)
qed

lemma calibrate_one: "calibrate default_detector [[Fin 0]] = Inr (det1, Fin 0)"
proof -
  have e: "encode_all default_detector [[Fin 0]] = Inr [empty_sig]"
    by (simp add: encode_default_zero)
  have s: "map (loo_score 25 [empty_sig]) [0..<length [empty_sig]] = [Fin 0]"
    by (simp add: loo_score_def upt_1 Let_def)
  have k: "d_kNN default_detector = 25" and a: "d_alpha default_detector = Fin (1 / 10)"
    by (simp_all add: default_detector_def new_detector_def)
  show ?thesis
    unfolding calibrate_def e k a Let_def sum.case s quantile_one
    by (simp add: det1_def)
qed

lemma predict_one:
  "predict det1 [Fin 0] = Inr \<lparr>isAnomaly = True, score = Fin 1, threshold_used = Fin 0\<rparr>"
proof -
  have "encode det1 [Fin 0] = Inr empty_sig"
    using encode_default_zero by (simp add: encode_def det1_def)
  then have "nonconformity det1 [Fin 0] = Inr (Fin 1)"
    by (simp add: nonconformity_def det1_def default_detector_def new_detector_def
          distance_empty knn_mean_one)
  moreover have "threshold det1 = Inr (Fin 0)"
    by (simp add: threshold_def det1_def)
  ultimately show ?thesis
    by (simp add: predict_def js_gt_def)
qed

theorem updateIfNormal_frame_witness:
  "updateIfNormal det1 [Fin 0] = Inr (False, det1)
   \<and> (\<exists>sx sc t. updateIfNormal det2 [Fin 0] =
         Inr (True, det2\<lparr>calSigs := calSigs det2 @ [sx], calScores := calScores det2 @ [sc],
                         thr := Some t\<rparr>))"
  using updateIfNormal_frame [OF by_calibrate [OF calibrate_one] predict_one]
    updateIfNormal_frame [OF by_calibrate [OF calibrate_two] predict_two]
  by simp

theorem calibrate_raises_iff_witness:
  "(\<exists>e. calibrate default_detector [] = Inl e)
   \<and> (\<exists>sigs t. calibrate default_detector [[Fin 0], [Fin 0]] =
         Inr (default_detector\<lparr>calSigs := sigs,
                calScores := map (loo_score (d_kNN default_detector) sigs) [0..<length sigs],
                thr := Some t\<rparr>, t))"
proof -
  have v: "0 < d_k default_detector" "0 < h_dim (d_hashing default_detector)"
    "salts_ok (d_hashing default_detector)"
    by (simp_all add: default_detector_def new_detector_def default_hashing_def [of 4096]
          salts_ok_def DEFAULT_SALT1_def DEFAULT_SALT2_def)
  have a: "alpha_ok (d_alpha default_detector)"
    by (simp add: alpha_ok_def default_detector_def new_detector_def js_gt_def)
  show ?thesis
    using calibrate_raises_iff [OF v, of "[]"] calibrate_raises_iff [OF v, of "[[Fin 0], [Fin 0]]"] a
    by auto
qed

text \<open>
  C7 as stated fails: with \<open>k = 0\<close> the first sample's encoding raises, although the
  samples are not empty and \<open>alpha = 0.1\<close>.
\<close>

theorem calibrate_raises_on_invalid_k:
  "calibrate (new_detector 4096 0 (Fin (1 / 10)) 25 None (Fin (95 / 100))) [[Fin 1]]
     = Inl (Error ''k must be positive'')"
  by (simp add: calibrate_def encode_def encodeSparseSignature_def new_detector_def)

subsection \<open>The multi-scale tracker\<close>

lemma insort_cmp_desc:
  "insort_cmp (\<lambda>a b. js_sub b a) (Fin a) (map Fin ys) = map Fin (insort_key (\<lambda>x. - x) a ys)"
  by (induction ys) (auto simp: js_gt_def)

lemma sort_cmp_desc:
  "sort_cmp (\<lambda>a b. js_sub b a) (map Fin xs) = map Fin (sort_key (\<lambda>x. - x) xs)"
  by (induction xs) (simp_all add: sort_cmp_Cons insort_cmp_desc)

lemma foldl_js_add_Fin: "foldl js_add (Fin a) (map Fin ys) = Fin (a + sum_list ys)"
  by (induction ys arbitrary: a) (simp_all add: add.assoc)

lemma topk_avg_empty: "buf r = [] \<Longrightarrow> topk_avg r q k = Fin 0"
  by (simp add: topk_avg_def)

lemma topk_avg_finite:
  assumes "map (\<lambda>s. sparse_cosine q s) (buf r) = map Fin xs" and "xs \<noteq> []"
  shows "topk_avg r q k = Fin (top_k_average (nat (max 1 (min k (int (length xs))))) xs)"
proof -
  define K where "K = max 1 (min k (int (length xs)))"
  have ne: "buf r \<noteq> []" using assms by auto
  have K: "0 < K" by (simp add: K_def)
  then have rK: "real (nat K) = real_of_int K" "real_of_int K \<noteq> 0" by simp_all
  have "topk_avg r q k =
      js_div (foldl js_add (Fin 0) (take (nat K) (map Fin (sort_key (\<lambda>x. - x) xs))))
        (Fin (real_of_int K))"
    using ne by (simp add: topk_avg_def assms(1) sort_cmp_desc Let_def K_def)
  also have "\<dots> = Fin (sum_list (take (nat K) (sort_key (\<lambda>x. - x) xs)) / real_of_int K)"
    using rK(2) by (simp add: take_map foldl_js_add_Fin)
  finally show ?thesis
    by (simp add: top_k_average_def rK(1) flip: K_def)
qed

lemma push_cases:
  "buf (push r q) = (if length (buf r) < cap r then buf r @ [q] else tl (buf r @ [q]))
   \<and> cap (push r q) = cap r"
  by (auto simp: push_def Let_def)

lemma push_bounded: "length (buf r) \<le> cap r \<Longrightarrow> length (buf (push r q)) \<le> cap r"
  by (auto simp: push_cases)

lemma push_recent:
  assumes "buf r = drop (length pre - cap r) pre"
  shows "buf (push r q) = drop (length (pre @ [q]) - cap r) (pre @ [q])"
proof (cases "length pre < cap r")
  case True
  then show ?thesis using assms by (simp add: push_cases)
next
  case False
  then have full: "length (buf r) = cap r" using assms by simp
  show ?thesis
  proof (cases "cap r = 0")
    case True
    then show ?thesis using assms by (simp add: push_cases)
  next
    case c: False
    then have "drop (length pre - cap r) pre \<noteq> []" using False by simp
    then have "tl (drop (length pre - cap r) pre @ [q]) = drop (Suc (length pre - cap r)) pre @ [q]"
      by (simp add: drop_Suc tl_drop)
    moreover have "Suc (length pre - cap r) = Suc (length pre) - cap r"
      using False by simp
    ultimately show ?thesis using assms False full c by (simp add: push_cases)
  qed
qed

lemma hist_update:
  "hist (fst (update_and_score t sig)) = map (\<lambda>(s, r). (s, push r (to_dict sig))) (hist t)"
  by (simp add: update_and_score_def Let_def)

lemma step_pushed:
  assumes "pushed_so_far pre t"
  shows "pushed_so_far (pre @ [to_dict sig]) (fst (update_and_score t sig))"
  unfolding pushed_so_far_def hist_update
proof (intro ballI)
  fix x
  assume "x \<in> set (map (\<lambda>(s, r). (s, push r (to_dict sig))) (hist t))"
  then obtain s r where x: "x = (s, push r (to_dict sig))" and m: "(s, r) \<in> set (hist t)"
    by auto
  from m have r: "cap r = s" "buf r = drop (length pre - cap r) pre"
    using assms by (auto simp: pushed_so_far_def)
  show "case x of (s, r) \<Rightarrow>
      cap r = s \<and> buf r = drop (length (pre @ [to_dict sig]) - s) (pre @ [to_dict sig])"
    unfolding x using push_recent [OF r(2), of "to_dict sig"] r(1)
    by (simp add: push_cases)
qed

lemma run_pushed:
  "pushed_so_far pre t \<Longrightarrow> pushed_so_far (pre @ map to_dict sigs) (run t sigs)"
proof (induction sigs arbitrary: t pre)
  case Nil
  then show ?case by simp
next
  case (Cons sig sigs)
  from Cons.IH [OF step_pushed [OF Cons.prems, of sig]] show ?case by simp
qed

lemma init_pushed: "pushed_so_far [] (new_tracker scs k)"
  by (auto simp: pushed_so_far_def new_tracker_def)

text \<open>
  C9. After any sequence of \<open>update_and_score\<close> calls on a new tracker, the ring of
  scale \<open>s\<close> has capacity \<open>s\<close> and holds at most \<open>s\<close> entries: exactly the most
  recent ones, in order. A push onto a full ring evicts the first (oldest) entry.
\<close>

theorem ring_bounded_fifo:
  assumes "(s, r) \<in> set (hist (run (new_tracker scs k) sigs))"
  shows "cap r = s \<and> length (buf r) \<le> cap r
         \<and> buf r = drop (length sigs - s) (map to_dict sigs)
         \<and> (\<forall>q. buf (push r q) = (if length (buf r) < cap r then buf r @ [q] else tl (buf r @ [q]))
                 \<and> length (buf (push r q)) \<le> cap r)"
proof -
  have "pushed_so_far (map to_dict sigs) (run (new_tracker scs k) sigs)"
    using run_pushed [OF init_pushed, where sigs = sigs and scs1 = scs and k1 = k] by simp
  with assms have c: "cap r = s" and b: "buf r = drop (length sigs - s) (map to_dict sigs)"
    by (auto simp: pushed_so_far_def)
  then have l: "length (buf r) \<le> cap r" by simp
  show ?thesis
    using c b l push_bounded [OF l] by (simp add: push_cases)
qed

lemma run_three:
  "hist (run (new_tracker [2] 5) [sigA, sigB, sigC])
     = [(2, \<lparr>buf = [to_dict sigB, to_dict sigC], cap = 2\<rparr>)]"
  by (simp add: new_tracker_def update_and_score_def push_def Let_def)

theorem ring_bounded_fifo_witness:
  "length [to_dict sigB, to_dict sigC] \<le> (2::nat)
   \<and> [to_dict sigB, to_dict sigC] = drop (3 - 2) (map to_dict [sigA, sigB, sigC])
   \<and> buf (push \<lparr>buf = [to_dict sigB, to_dict sigC], cap = 2\<rparr> (to_dict sigA))
       = [to_dict sigC, to_dict sigA]"
proof -
  have m: "(2, \<lparr>buf = [to_dict sigB, to_dict sigC], cap = 2\<rparr>)
      \<in> set (hist (run (new_tracker [2] 5) [sigA, sigB, sigC]))"
    unfolding run_three by simp
  from ring_bounded_fifo [OF m] show ?thesis by simp
qed

text \<open>
  C6. In a call of \<open>update_and_score\<close> every per-scale novelty is computed from the
  ring as it was before the call: it is 1 when the ring is empty, and otherwise 1 minus
  the mean of the \<open>max(1, min(knn_k, n))\<close> largest cosine similarities between the new
  signature and the \<open>n\<close> ring entries (for finite similarities). The combined score is
  the arithmetic mean of the novelties, and the new signature enters the rings only in
  the state the call returns.
\<close>

theorem scores_before_push:
  "length (per (snd (update_and_score t sig))) = length (hist t)
   \<and> hist (fst (update_and_score t sig)) = map (\<lambda>(s, r). (s, push r (to_dict sig))) (hist t)
   \<and> (\<forall>i < length (hist t).
         fst (per (snd (update_and_score t sig)) ! i) = fst (hist t ! i)
         \<and> (buf (snd (hist t ! i)) = [] \<longrightarrow>
              snd (per (snd (update_and_score t sig)) ! i) = Fin 1)
         \<and> (\<forall>xs. xs \<noteq> [] \<and> map (\<lambda>s. sparse_cosine (to_dict sig) s) (buf (snd (hist t ! i))) = map Fin xs \<longrightarrow>
              snd (per (snd (update_and_score t sig)) ! i)
                = Fin (1 - top_k_average (nat (max 1 (min (knn_k t) (int (length xs))))) xs)))
   \<and> (\<forall>ys. ys \<noteq> [] \<and> map snd (per (snd (update_and_score t sig))) = map Fin ys \<longrightarrow>
         combined (snd (update_and_score t sig)) = Fin (sum_list ys / real (length ys)))"
proof -
  let ?q = "to_dict sig"
  let ?per = "per (snd (update_and_score t sig))"
  have per: "?per = map (\<lambda>(s, r). (s, js_sub (Fin 1) (topk_avg r ?q (knn_k t)))) (hist t)"
    by (simp add: update_and_score_def Let_def)
  have 1: "length ?per = length (hist t)" by (simp add: per)
  have 3: "fst (?per ! i) = fst (hist t ! i)
      \<and> (buf (snd (hist t ! i)) = [] \<longrightarrow> snd (?per ! i) = Fin 1)
      \<and> (\<forall>xs. xs \<noteq> [] \<and> map (\<lambda>s. sparse_cosine ?q s) (buf (snd (hist t ! i))) = map Fin xs \<longrightarrow>
            snd (?per ! i) = Fin (1 - top_k_average (nat (max 1 (min (knn_k t) (int (length xs))))) xs))"
    if "i < length (hist t)" for i
  proof -
    obtain s r where sr: "hist t ! i = (s, r)" by (cases "hist t ! i")
    have p: "?per ! i = (s, js_sub (Fin 1) (topk_avg r ?q (knn_k t)))"
      using that sr by (simp add: per)
    show ?thesis
      using topk_avg_empty [of r ?q "knn_k t"] topk_avg_finite [of ?q r _ "knn_k t"]
      by (auto simp: p sr)
  qed
  have 4: "combined (snd (update_and_score t sig)) = Fin (sum_list ys / real (length ys))"
    if "ys \<noteq> []" "map snd ?per = map Fin ys" for ys
  proof -
    have l: "length ?per = length ys" using that(2) by (metis length_map)
    have "combined (snd (update_and_score t sig)) =
        (if length (map snd ?per) > 0
         then js_div (foldl js_add (Fin 0) (map snd ?per)) (Fin (real (length (map snd ?per))))
         else Fin 0)"
      by (simp add: update_and_score_def Let_def)
    then show ?thesis
      using that(1) l unfolding that(2) by (simp add: foldl_js_add_Fin)
  qed
  show ?thesis using 1 hist_update 3 4 by blast
qed

lemma to_dict_sigA: "to_dict sigA = [(1, Some (Fin 1))]"
  by (simp add: to_dict_def sigA_def nth_opt_def)

lemma cosine_sigA: "sparse_cosine (to_dict sigA) (to_dict sigA) = Fin 1"
  by (simp add: to_dict_sigA sparse_cosine_def keep_first_def dict_get_def or_zero_def
        to_number_def js_eq_def Let_def)

lemma hist_fresh: "hist (new_tracker [2] 5) = [(2, \<lparr>buf = [], cap = 2\<rparr>)]"
  by (simp add: new_tracker_def)

lemma hist_after_one:
  "hist (fst (update_and_score (new_tracker [2] 5) sigA))
     = [(2, \<lparr>buf = [to_dict sigA], cap = 2\<rparr>)]"
  by (simp add: hist_update hist_fresh push_def)

theorem scores_before_push_witness:
  "snd (per (snd (update_and_score (new_tracker [2] 5) sigA)) ! 0) = Fin 1
   \<and> combined (snd (update_and_score (new_tracker [2] 5) sigA)) = Fin 1
   \<and> snd (per (snd (update_and_score (fst (update_and_score (new_tracker [2] 5) sigA)) sigA)) ! 0)
       = Fin 0"
proof -
  let ?t0 = "new_tracker [2] 5"
  let ?t1 = "fst (update_and_score ?t0 sigA)"
  let ?per0 = "per (snd (update_and_score ?t0 sigA))"
  let ?per1 = "per (snd (update_and_score ?t1 sigA))"
  have k: "knn_k ?t1 = 5"
    by (simp add: update_and_score_def new_tracker_def Let_def)
  note f0 = scores_before_push [of ?t0 sigA]
  note f1 = scores_before_push [of ?t1 sigA]
  have len: "length ?per0 = 1" using f0 by (simp add: hist_fresh)
  have "0 < length (hist ?t0)" "buf (snd (hist ?t0 ! 0)) = []"
    by (simp_all add: hist_fresh)
  with f0 have a: "snd (?per0 ! 0) = Fin 1" by blast
  with len have m: "map snd ?per0 = map Fin [1]"
    by (cases ?per0) simp_all
  from f0 have "\<forall>ys. ys \<noteq> [] \<and> map snd ?per0 = map Fin ys \<longrightarrow>
      combined (snd (update_and_score ?t0 sigA)) = Fin (sum_list ys / real (length ys))"
    by blast
  from this [rule_format, of "[1]"] m
  have b: "combined (snd (update_and_score ?t0 sigA)) = Fin 1" by simp
  have i: "0 < length (hist ?t1)" by (simp add: hist_after_one)
  have x: "[1::real] \<noteq> [] \<and>
      map (\<lambda>s. sparse_cosine (to_dict sigA) s) (buf (snd (hist ?t1 ! 0))) = map Fin [1]"
    by (simp add: hist_after_one cosine_sigA)
  from f1 i have "\<forall>xs. xs \<noteq> [] \<and>
      map (\<lambda>s. sparse_cosine (to_dict sigA) s) (buf (snd (hist ?t1 ! 0))) = map Fin xs \<longrightarrow>
      snd (?per1 ! 0) = Fin (1 - top_k_average (nat (max 1 (min (knn_k ?t1) (int (length xs))))) xs)"
    by blast
  from this [rule_format, OF x]
  have c: "snd (?per1 ! 0) = Fin 0"
    by (simp add: k top_k_average_def)
  from a b c show ?thesis by simp
qed

subsection \<open>The similarity kernel\<close>

lemma set_keep_first [simp]: "set (keep_first xs) = set xs"
  by (simp add: keep_first_def)

lemma distinct_keep_first [simp]: "distinct (keep_first xs)"
  by (simp add: keep_first_def)

lemma overlap_count:
  assumes "distinct A"
  shows "length (filter (\<lambda>p. p \<in> P) A) = card (set A \<inter> P)"
proof -
  have "set (filter (\<lambda>p. p \<in> P) A) = set A \<inter> P" by auto
  moreover have "distinct (filter (\<lambda>p. p \<in> P) A)" using assms by simp
  ultimately show ?thesis by (metis distinct_card)
qed

lemma overlap_frac_code:
  "anomalyOverlapFrac Q X M = Fin (overlap_frac (set (anomalySet Q M)) (set (positions X)))"
proof (cases "anomalySet Q M = []")
  case True
  then show ?thesis by (simp add: anomalyOverlapFrac_def overlap_frac_def)
next
  case False
  have d: "distinct (anomalySet Q M)" by (simp add: anomalySet_def Let_def)
  have "length (anomalySet Q M) = card (set (anomalySet Q M))"
    using d by (simp add: distinct_card)
  then show ?thesis
    using False overlap_count [OF d, of "set (positions X)"]
    by (simp add: anomalyOverlapFrac_def overlap_frac_def Let_def)
qed

lemma insort_pairs:
  "insort_cmp (\<lambda>a b. js_sub (to_number (snd b)) (to_number (snd a))) (lift_pair x) (map lift_pair ys)
     = map lift_pair (insort_key (\<lambda>(p, e). - e) x ys)"
  by (induction ys) (auto simp: js_gt_def lift_pair_def to_number_def split: prod.splits)

lemma sort_pairs:
  "sort_cmp (\<lambda>a b. js_sub (to_number (snd b)) (to_number (snd a))) (map lift_pair xs)
     = map lift_pair (sort_key (\<lambda>(p, e). - e) xs)"
  by (induction xs) (simp_all add: sort_cmp_Cons insort_pairs)

lemma pairs_well_formed:
  assumes "well_formed Q"
  shows "map (\<lambda>i. (positions Q ! i, nth_opt (elevations Q) i)) [0..<length (positions Q)]
           = map lift_pair (zip (positions Q) (map the_fin (elevations Q)))"
proof (rule nth_equalityI)
  show "length (map (\<lambda>i. (positions Q ! i, nth_opt (elevations Q) i)) [0..<length (positions Q)])
      = length (map lift_pair (zip (positions Q) (map the_fin (elevations Q))))"
    using assms by (simp add: well_formed_def)
next
  fix i
  assume "i < length (map (\<lambda>i. (positions Q ! i, nth_opt (elevations Q) i)) [0..<length (positions Q)])"
  then have i: "i < length (positions Q)" "i < length (elevations Q)"
    using assms by (simp_all add: well_formed_def)
  then have "is_fin (elevations Q ! i)"
    using assms by (simp add: well_formed_def)
  then have "elevations Q ! i = Fin (the_fin (elevations Q ! i))"
    by (cases "elevations Q ! i") simp_all
  then show "map (\<lambda>i. (positions Q ! i, nth_opt (elevations Q) i)) [0..<length (positions Q)] ! i
      = map lift_pair (zip (positions Q) (map the_fin (elevations Q))) ! i"
    using i by (simp add: lift_pair_def nth_opt_def)
qed

lemma anomalySet_top:
  assumes "well_formed Q" and "0 \<le> M"
  shows "set (anomalySet Q M) = top_positions Q (nat M)"
proof -
  let ?zs = "sort_key (\<lambda>(p, e). - e) (zip (positions Q) (map the_fin (elevations Q)))"
  have "anomalySet Q M
      = keep_first (map fst (slice0 (map lift_pair ?zs) (min M (int (length (map lift_pair ?zs))))))"
    by (simp add: anomalySet_def pairs_well_formed [OF assms(1)] sort_pairs Let_def)
  also have "slice0 (map lift_pair ?zs) (min M (int (length (map lift_pair ?zs))))
      = map lift_pair (take (nat M) ?zs)"
    using assms(2) by (simp add: slice0_def take_map min_def)
  finally have "set (anomalySet Q M) = set (map fst (map lift_pair (take (nat M) ?zs)))"
    by simp
  also have "map fst (map lift_pair (take (nat M) ?zs)) = map fst (take (nat M) ?zs)"
    by (simp add: lift_pair_def comp_def)
  finally show ?thesis by (simp add: top_positions_def)
qed

lemma dict_set_subset: "set (dict_set d k v) \<subseteq> insert (k, v) (set d)"
  by (induction d) (auto split: if_splits)

lemma fold_dict_values:
  assumes "\<forall>kv \<in> set d0. P (snd kv)" and "\<forall>i \<in> set js. P (f i)"
  shows "\<forall>kv \<in> set (foldl (\<lambda>d i. dict_set d (g i) (f i)) d0 js). P (snd kv)"
  using assms
proof (induction js arbitrary: d0)
  case Nil
  then show ?case by simp
next
  case (Cons j js)
  have "\<forall>kv \<in> set (dict_set d0 (g j) (f j)). P (snd kv)"
    using Cons.prems dict_set_subset [of d0 "g j" "f j"] by auto
  then show ?case using Cons.IH Cons.prems by simp
qed

lemma to_dict_values:
  assumes "well_formed S" and "dict_get (to_dict S) p = Some v"
  shows "is_fin v"
proof -
  have "\<forall>i \<in> set [0..<length (positions S)].
          (\<lambda>w. \<forall>v. w = Some v \<longrightarrow> is_fin v) (nth_opt (elevations S) i)"
    using assms(1) by (simp add: well_formed_def nth_opt_def)
  then have all: "\<forall>kv \<in> set (to_dict S). \<forall>v. snd kv = Some v \<longrightarrow> is_fin v"
    unfolding to_dict_def
    by (intro fold_dict_values [where P = "\<lambda>w. \<forall>v. w = Some v \<longrightarrow> is_fin v"]) simp_all
  from assms(2) have "map_of (to_dict S) p = Some (Some v)"
    by (simp add: dict_get_def split: option.splits)
  then have "(p, Some v) \<in> set (to_dict S)" by (rule map_of_SomeD)
  with all show ?thesis by fastforce
qed

lemma or_zero_coord:
  assumes "well_formed S"
  shows "or_zero (dict_get (to_dict S) p) = Fin (coord S p)"
proof (cases "dict_get (to_dict S) p")
  case None
  then show ?thesis by (simp add: or_zero_def coord_def)
next
  case (Some v)
  then have "is_fin v" using to_dict_values [OF assms] by simp
  then obtain r where "v = Fin r" by (cases v) simp_all
  then show ?thesis using Some by (simp add: or_zero_def coord_def)
qed

lemma agreement_fold:
  assumes "\<And>p. or_zero (dict_get Qd p) = Fin (q p)" and "\<And>p. or_zero (dict_get Xd p) = Fin (x p)"
  shows "foldl (agreement_step Qd Xd) (Fin d, Fin n, Fin m) A
       = (Fin (d + (\<Sum>p\<leftarrow>A. q p * x p)), Fin (n + (\<Sum>p\<leftarrow>A. q p * q p)),
          Fin (m + (\<Sum>p\<leftarrow>A. x p * x p)))"
proof (induction A arbitrary: d n m)
  case Nil
  then show ?case by simp
next
  case (Cons a A)
  have "agreement_step Qd Xd (Fin d, Fin n, Fin m) a
      = (Fin (d + q a * x a), Fin (n + q a * q a), Fin (m + x a * x a))"
    by (simp add: agreement_step_def assms)
  then show ?case using Cons.IH by (simp add: add.assoc)
qed

lemma agreement_code:
  assumes "well_formed Q" and "well_formed X"
  shows "anomalyAgreementCosine Q X M (Fin e)
       = restricted_cosine (set (anomalySet Q M)) (coord Q) (coord X) e"
proof (cases "anomalySet Q M = []")
  case True
  then show ?thesis by (simp add: anomalyAgreementCosine_def restricted_cosine_def)
next
  case False
  let ?A = "anomalySet Q M"
  have d: "distinct ?A" by (simp add: anomalySet_def Let_def)
  have s: "(\<Sum>p\<leftarrow>?A. f p) = (\<Sum>p\<in>set ?A. f p)" for f :: "int \<Rightarrow> real"
    using d by (rule sum_list_distinct_conv_sum_set)
  have f: "foldl (agreement_step (to_dict Q) (to_dict X)) (Fin 0, Fin 0, Fin 0) ?A
      = (Fin (\<Sum>p\<in>set ?A. coord Q p * coord X p), Fin (\<Sum>p\<in>set ?A. coord Q p * coord Q p),
         Fin (\<Sum>p\<in>set ?A. coord X p * coord X p))"
    using agreement_fold [of "to_dict Q" "coord Q" "to_dict X" "coord X" 0 0 0 ?A]
    by (simp add: or_zero_coord assms s)
  have nq: "0 \<le> (\<Sum>p\<in>set ?A. coord Q p * coord Q p)" by (intro sum_nonneg) simp
  have nx: "0 \<le> (\<Sum>p\<in>set ?A. coord X p * coord X p)" by (intro sum_nonneg) simp
  have sq: "js_sqrt (Fin r) = Fin (sqrt r)" if "0 \<le> r" for r using that by simp
  show ?thesis
    using False
    by (simp add: anomalyAgreementCosine_def restricted_cosine_def Let_def f js_eq_def
        sq [OF nq] sq [OF nx] del: js_sqrt.simps js_div.simps)
qed

text \<open>
  C8. For all signatures \<open>Q\<close> and \<open>X\<close>, weights \<open>beta\<close> and \<open>gamma\<close> and size \<open>M\<close>, the
  total of \<open>kkScore\<close> is the base cosine times \<open>1 + beta * a + gamma * b\<close>. Here \<open>a\<close> is
  the fraction of the anomaly set of \<open>Q\<close> that lies in the positions of \<open>X\<close>, and 0 when
  that set is empty; for a well-formed \<open>Q\<close> and \<open>M \<ge> 0\<close> the anomaly set is the set of
  the \<open>M\<close> positions of largest elevation; and for well-formed \<open>Q\<close> and \<open>X\<close>, \<open>b\<close> is the
  cosine of the two signatures over the coordinates of the anomaly set.
\<close>

theorem kkScore_total:
  "kk_total (kkScore Q X beta gamma M eps)
     = js_mul (baseCosine Q X eps)
         (js_add (js_add (Fin 1) (js_mul beta (kk_a (kkScore Q X beta gamma M eps))))
                 (js_mul gamma (kk_b (kkScore Q X beta gamma M eps))))
   \<and> kk_a (kkScore Q X beta gamma M eps)
     = Fin (overlap_frac (set (anomalySet Q M)) (set (positions X)))
   \<and> (well_formed Q \<and> 0 \<le> M \<longrightarrow> set (anomalySet Q M) = top_positions Q (nat M))
   \<and> (well_formed Q \<and> well_formed X \<and> eps = Fin e \<longrightarrow>
        kk_b (kkScore Q X beta gamma M eps)
          = restricted_cosine (set (anomalySet Q M)) (coord Q) (coord X) e)"
proof (intro conjI impI)
  show "kk_total (kkScore Q X beta gamma M eps)
     = js_mul (baseCosine Q X eps)
         (js_add (js_add (Fin 1) (js_mul beta (kk_a (kkScore Q X beta gamma M eps))))
                 (js_mul gamma (kk_b (kkScore Q X beta gamma M eps))))"
    by (simp add: kkScore_def Let_def)
  show "kk_a (kkScore Q X beta gamma M eps)
     = Fin (overlap_frac (set (anomalySet Q M)) (set (positions X)))"
    by (simp add: kkScore_def Let_def overlap_frac_code)
  show "set (anomalySet Q M) = top_positions Q (nat M)" if "well_formed Q \<and> 0 \<le> M"
    using that by (simp add: anomalySet_top)
  show "kk_b (kkScore Q X beta gamma M eps)
          = restricted_cosine (set (anomalySet Q M)) (coord Q) (coord X) e"
    if "well_formed Q \<and> well_formed X \<and> eps = Fin e"
    using that by (simp add: kkScore_def Let_def agreement_code)
qed

lemma top_kkQ: "top_positions kkQ 2 = {1, 2}"
  by (auto simp: top_positions_def kkQ_def)

lemma well_formed_kkQ: "well_formed kkQ"
  by (simp add: well_formed_def kkQ_def)

lemma well_formed_kkX: "well_formed kkX"
  by (simp add: well_formed_def kkX_def)

lemma to_dict_kkQ: "to_dict kkQ = [(1, Some (Fin (3/5))), (2, Some (Fin (4/5))), (3, Some (Fin (1/10)))]"
  by (simp add: to_dict_def kkQ_def nth_opt_def upt_3)

lemma to_dict_kkX: "to_dict kkX = [(2, Some (Fin 1)), (3, Some (Fin 1))]"
  by (simp add: to_dict_def kkX_def nth_opt_def upt_2)

theorem kkScore_total_witness:
  "well_formed kkQ \<and> well_formed kkX \<and> (0::int) \<le> 2
   \<and> set (anomalySet kkQ 2) = {1, 2}
   \<and> kk_a (kkScore kkQ kkX (Fin 1) (Fin 1) 2 (Fin 0)) = Fin (1/2)
   \<and> kk_b (kkScore kkQ kkX (Fin 1) (Fin 1) 2 (Fin 0)) = Fin (4/5)"
proof -
  note t = kkScore_total [of kkQ kkX "Fin 1" "Fin 1" 2 "Fin 0" 0]
  have A: "set (anomalySet kkQ 2) = {1, 2}"
    using t well_formed_kkQ top_kkQ by simp
  have a: "kk_a (kkScore kkQ kkX (Fin 1) (Fin 1) 2 (Fin 0)) = Fin (1/2)"
    using t by (simp add: A overlap_frac_def kkX_def)
  have "kk_b (kkScore kkQ kkX (Fin 1) (Fin 1) 2 (Fin 0))
      = restricted_cosine {1, 2} (coord kkQ) (coord kkX) 0"
    using t well_formed_kkQ well_formed_kkX by (simp add: A)
  also have "\<dots> = Fin (4/5)"
    by (simp add: restricted_cosine_def coord_def to_dict_kkQ to_dict_kkX dict_get_def)
  finally have b: "kk_b (kkScore kkQ kkX (Fin 1) (Fin 1) 2 (Fin 0)) = Fin (4/5)" .
  show ?thesis using well_formed_kkQ well_formed_kkX A a b by simp
qed

end
